theory Spec2Isabelle
  imports Main "HOL-Library.Sublist"
begin

section \<open>Background tasks: the data model\<close>

text \<open>
  The task record of \<^verbatim>\<open>src/features/background-agent\<close>, with the fields the test
  file \<^verbatim>\<open>manager.test.ts\<close> reads and writes. Optional fields (\<^verbatim>\<open>completedAt?\<close>,
  \<^verbatim>\<open>error?\<close>, ...) are \<open>option\<close> values, \<^verbatim>\<open>undefined\<close> being \<open>None\<close>. Dates are
  their \<^verbatim>\<open>getTime()\<close> value in milliseconds. The field \<^verbatim>\<open>id\<close> is named \<open>task_id\<close>
  (\<open>id\<close> is the identity function of HOL).
\<close>

datatype TaskStatus = Running | Completed | Cancelled

record ModelRef =
  providerID :: string
  modelID :: string

record TaskProgress =
  toolCalls :: int
  lastTool :: "string option"
  lastUpdate :: int

record BackgroundTask =
  task_id :: string
  sessionID :: string
  parentSessionID :: string
  parentMessageID :: string
  description :: string
  prompt :: string
  agent :: string
  status :: TaskStatus
  startedAt :: int
  completedAt :: "int option"
  error :: "string option"
  progress :: "TaskProgress option"
  parentAgent :: "string option"
  parentModel :: "ModelRef option"
  model :: "ModelRef option"
  concurrencyKey :: "string option"
  concurrencyGroup :: "string option"

section \<open>The registry of \<^verbatim>\<open>MockBackgroundManager\<close>\<close>

text \<open>
  A JavaScript \<^verbatim>\<open>Map\<close> iterates in insertion order, \<^verbatim>\<open>set\<close> on a key it has keeps
  the key's place, and \<^verbatim>\<open>delete\<close> removes the entry: an association list.
\<close>

type_synonym ('k, 'v) jsmap = "('k \<times> 'v) list"

fun map_get :: "('k, 'v) jsmap \<Rightarrow> 'k \<Rightarrow> 'v option" where
  "map_get [] k = None"
| "map_get ((k', v) # m) k = (if k' = k then Some v else map_get m k)"

fun map_set :: "('k, 'v) jsmap \<Rightarrow> 'k \<Rightarrow> 'v \<Rightarrow> ('k, 'v) jsmap" where
  "map_set [] k v = [(k, v)]"
| "map_set ((k', v') # m) k v = (if k' = k then (k, v) # m else (k', v') # map_set m k v)"

definition map_delete :: "('k, 'v) jsmap \<Rightarrow> 'k \<Rightarrow> ('k, 'v) jsmap" where
  "map_delete m k = filter (\<lambda>e. fst e \<noteq> k) m"

definition map_values :: "('k, 'v) jsmap \<Rightarrow> 'v list" where
  "map_values m = map snd m"

record MockBackgroundManager =
  tasks :: "(string, BackgroundTask) jsmap"
  notifications :: "(string, BackgroundTask list) jsmap"
  resumeCalls :: "(string \<times> string) list"

definition addTask :: "MockBackgroundManager \<Rightarrow> BackgroundTask \<Rightarrow> MockBackgroundManager" where
  "addTask m task = m\<lparr>tasks := map_set (tasks m) (task_id task) task\<rparr>"

text \<open>\<^verbatim>\<open>findBySession\<close>: the first task, in iteration order, of that execution session.\<close>

definition findBySession :: "MockBackgroundManager \<Rightarrow> string \<Rightarrow> BackgroundTask option" where
  "findBySession m sid = find (\<lambda>task. sessionID task = sid) (map_values (tasks m))"

definition getTasksByParentSession :: "MockBackgroundManager \<Rightarrow> string \<Rightarrow> BackgroundTask list" where
  "getTasksByParentSession m sid = filter (\<lambda>task. parentSessionID task = sid) (map_values (tasks m))"

text \<open>
  \<^verbatim>\<open>getAllDescendantTasks\<close> calls itself inside its loop over the direct children and
  has no guard against a cycle of parent links, so it need not return: the result is an
  \<open>option\<close>, \<open>None\<close> when the recursion never ends (the JavaScript call then ends in a
  stack overflow, not in a list). \<open>descendantsOf m children\<close> is the
  \<^verbatim>\<open>for (const child of directChildren)\<close> loop from the child it has reached: it pushes
  the child, then the child's own descendants, then goes on with the rest.
\<close>

partial_function (option) descendantsOf ::
  "MockBackgroundManager \<Rightarrow> BackgroundTask list \<Rightarrow> BackgroundTask list option" where
  "descendantsOf m children =
     (case children of
        [] \<Rightarrow> Some []
      | child # rest \<Rightarrow>
          Option.bind (descendantsOf m (getTasksByParentSession m (sessionID child)))
            (\<lambda>descendants.
               Option.bind (descendantsOf m rest)
                 (\<lambda>more. Some (child # descendants @ more))))"

definition getAllDescendantTasks :: "MockBackgroundManager \<Rightarrow> string \<Rightarrow> BackgroundTask list option" where
  "getAllDescendantTasks m sid = descendantsOf m (getTasksByParentSession m sid)"

text \<open>
  The reading of the specification that \<^verbatim>\<open>getAllDescendantTasks\<close> is compared with: a
  task is a descendant of a session when it is reached in one or more hops along the
  \<^verbatim>\<open>parentSessionID\<close> edge.
\<close>

inductive isDescendant :: "MockBackgroundManager \<Rightarrow> string \<Rightarrow> BackgroundTask \<Rightarrow> bool"
  for m :: MockBackgroundManager and sid :: string where
  direct: "t \<in> set (map_values (tasks m)) \<Longrightarrow> parentSessionID t = sid \<Longrightarrow> isDescendant m sid t"
| nested: "isDescendant m sid u \<Longrightarrow> t \<in> set (map_values (tasks m)) \<Longrightarrow>
     parentSessionID t = sessionID u \<Longrightarrow> isDescendant m sid t"

text \<open>A cycle of parent links below a session: one of its descendants descends from itself.\<close>

definition cyclicBelow :: "MockBackgroundManager \<Rightarrow> string \<Rightarrow> bool" where
  "cyclicBelow m sid = (\<exists>t. isDescendant m sid t \<and> isDescendant m (sessionID t) t)"

text \<open>\<^verbatim>\<open>createMockTask\<close> of the test file, the clock read by \<^verbatim>\<open>new Date()\<close> being \<open>now\<close>.\<close>

definition createMockTask :: "int \<Rightarrow> string \<Rightarrow> string \<Rightarrow> string \<Rightarrow> BackgroundTask" where
  "createMockTask now tid sid psid =
     \<lparr>task_id = tid, sessionID = sid, parentSessionID = psid,
      parentMessageID = ''mock-message-id'', description = ''test task'',
      prompt = ''test prompt'', agent = ''test-agent'', status = Running,
      startedAt = now, completedAt = None, error = None, progress = None,
      parentAgent = None, parentModel = None, model = None,
      concurrencyKey = None, concurrencyGroup = None\<rparr>"

definition emptyManager :: MockBackgroundManager where
  "emptyManager = \<lparr>tasks = [], notifications = [], resumeCalls = []\<rparr>"

subsection \<open>Notifications and the retention pruner\<close>

definition TASK_TTL_MS :: int where
  "TASK_TTL_MS = 30 * 60 * 1000"

definition markForNotification :: "MockBackgroundManager \<Rightarrow> BackgroundTask \<Rightarrow> MockBackgroundManager" where
  "markForNotification m task =
     (let queue = (case map_get (notifications m) (parentSessionID task) of
                     None \<Rightarrow> [] | Some q \<Rightarrow> q)
      in m\<lparr>notifications := map_set (notifications m) (parentSessionID task) (queue @ [task])\<rparr>)"

definition getPendingNotifications :: "MockBackgroundManager \<Rightarrow> string \<Rightarrow> BackgroundTask list" where
  "getPendingNotifications m sid =
     (case map_get (notifications m) sid of None \<Rightarrow> [] | Some q \<Rightarrow> q)"

text \<open>
  \<^verbatim>\<open>clearNotificationsForTask\<close>: the loop over \<^verbatim>\<open>this.notifications.entries()\<close>. Each
  step deletes or overwrites the entry it stands on only, so the loop visits the entries
  the map had when it started; the first argument is what is left to visit, the last is
  the map as updated so far.
\<close>

fun clearNotificationsLoop ::
  "(string \<times> BackgroundTask list) list \<Rightarrow> string \<Rightarrow>
   (string, BackgroundTask list) jsmap \<Rightarrow> (string, BackgroundTask list) jsmap" where
  "clearNotificationsLoop [] taskId n = n"
| "clearNotificationsLoop ((sid, ts) # entries) taskId n =
     (let filtered = filter (\<lambda>t. task_id t \<noteq> taskId) ts
      in clearNotificationsLoop entries taskId
           (if length filtered = 0 then map_delete n sid else map_set n sid filtered))"

definition clearNotificationsForTask :: "MockBackgroundManager \<Rightarrow> string \<Rightarrow> MockBackgroundManager" where
  "clearNotificationsForTask m taskId =
     m\<lparr>notifications := clearNotificationsLoop (notifications m) taskId (notifications m)\<rparr>"

record PruneResult =
  prunedTasks :: "string list"
  prunedNotifications :: int

text \<open>The first loop of \<^verbatim>\<open>pruneStaleTasksAndNotifications\<close>, over \<^verbatim>\<open>this.tasks.entries()\<close>.\<close>

fun pruneTasksLoop ::
  "(string \<times> BackgroundTask) list \<Rightarrow> int \<Rightarrow> MockBackgroundManager \<Rightarrow> string list \<Rightarrow>
   MockBackgroundManager \<times> string list" where
  "pruneTasksLoop [] now m pruned = (m, pruned)"
| "pruneTasksLoop ((taskId, task) # entries) now m pruned =
     (let age = now - startedAt task
      in if age > TASK_TTL_MS
         then (let m1 = clearNotificationsForTask m taskId;
                   m2 = m1\<lparr>tasks := map_delete (tasks m1) taskId\<rparr>
               in pruneTasksLoop entries now m2 (pruned @ [taskId]))
         else pruneTasksLoop entries now m pruned)"

text \<open>The second loop, over \<^verbatim>\<open>this.notifications.entries()\<close>.\<close>

fun pruneNotificationsLoop ::
  "(string \<times> BackgroundTask list) list \<Rightarrow> int \<Rightarrow>
   (string, BackgroundTask list) jsmap \<Rightarrow> int \<Rightarrow> (string, BackgroundTask list) jsmap \<times> int" where
  "pruneNotificationsLoop [] now n count = (n, count)"
| "pruneNotificationsLoop ((sid, ns) # entries) now n count =
     (if length ns = 0 then pruneNotificationsLoop entries now (map_delete n sid) count
      else
        (let validNotifications = filter (\<lambda>task. now - startedAt task \<le> TASK_TTL_MS) ns;
             removed = int (length ns) - int (length validNotifications);
             count' = count + removed
         in if length validNotifications = 0
            then pruneNotificationsLoop entries now (map_delete n sid) count'
            else if length validNotifications \<noteq> length ns
            then pruneNotificationsLoop entries now (map_set n sid validNotifications) count'
            else pruneNotificationsLoop entries now n count'))"

definition pruneStaleTasksAndNotifications ::
  "MockBackgroundManager \<Rightarrow> int \<Rightarrow> MockBackgroundManager \<times> PruneResult" where
  "pruneStaleTasksAndNotifications m now =
     (case pruneTasksLoop (tasks m) now m [] of
        (m1, pruned) \<Rightarrow>
          (case pruneNotificationsLoop (notifications m1) now (notifications m1) 0 of
             (n2, count) \<Rightarrow>
               (m1\<lparr>notifications := n2\<rparr>,
                \<lparr>prunedTasks = pruned, prunedNotifications = count\<rparr>)))"

definition getTaskCount :: "MockBackgroundManager \<Rightarrow> nat" where
  "getTaskCount m = length (tasks m)"

definition getNotificationCount :: "MockBackgroundManager \<Rightarrow> nat" where
  "getNotificationCount m = sum_list (map (\<lambda>e. length (snd e)) (notifications m))"

text \<open>
  What the pruner is compared with. \<open>filterQueues keep n\<close> keeps, in every queue, the
  entries that satisfy \<open>keep\<close> and drops the queues left empty; \<open>staleTaskIds now T\<close> are the
  keys of the registry entries older than the retention window; \<open>countInQueues p n\<close> counts
  the queued entries that satisfy \<open>p\<close>.
\<close>

definition dropEmpty :: "(string \<times> BackgroundTask list) list \<Rightarrow> (string \<times> BackgroundTask list) list" where
  "dropEmpty n = filter (\<lambda>e. snd e \<noteq> []) n"

definition filterQueues :: "(BackgroundTask \<Rightarrow> bool) \<Rightarrow> (string \<times> BackgroundTask list) list \<Rightarrow> (string \<times> BackgroundTask list) list" where
  "filterQueues keep n = dropEmpty (map (\<lambda>e. (fst e, filter keep (snd e))) n)"

definition staleTaskIds :: "int \<Rightarrow> (string \<times> BackgroundTask) list \<Rightarrow> string list" where
  "staleTaskIds now entries = map fst (filter (\<lambda>e. now - startedAt (snd e) > TASK_TTL_MS) entries)"

definition countInQueues :: "(BackgroundTask \<Rightarrow> bool) \<Rightarrow> (string \<times> BackgroundTask list) list \<Rightarrow> int" where
  "countInQueues p n = sum_list (map (\<lambda>e. int (length (filter p (snd e)))) n)"

subsection \<open>\<^verbatim>\<open>resume\<close>\<close>

record ResumeInput =
  sessionId :: string
  input_prompt :: string
  input_parentSessionID :: string
  input_parentMessageID :: string
  input_parentModel :: "ModelRef option"

datatype js_error = Error string

text \<open>
  The task object that \<^verbatim>\<open>resume\<close> mutates is the one the registry holds: the entry of the
  first task of that session is replaced, in its place.
\<close>

fun updateBySession ::
  "(string, BackgroundTask) jsmap \<Rightarrow> string \<Rightarrow> BackgroundTask \<Rightarrow> (string, BackgroundTask) jsmap" where
  "updateBySession [] sid task' = []"
| "updateBySession ((k, task) # m) sid task' =
     (if sessionID task = sid then (k, task') # m else (k, task) # updateBySession m sid task')"

definition resume ::
  "MockBackgroundManager \<Rightarrow> int \<Rightarrow> ResumeInput \<Rightarrow> js_error + (BackgroundTask \<times> MockBackgroundManager)" where
  "resume m now input =
     (case findBySession m (sessionId input) of
        None \<Rightarrow> Inl (Error (''Task not found for session: '' @ sessionId input))
      | Some existingTask \<Rightarrow>
          if status existingTask = Running then Inr (existingTask, m)
          else
            (let resumed = existingTask
                   \<lparr>status := Running,
                    completedAt := None,
                    error := None,
                    parentSessionID := input_parentSessionID input,
                    parentMessageID := input_parentMessageID input,
                    parentModel := input_parentModel input,
                    progress := Some \<lparr>toolCalls = (case progress existingTask of
                                                      None \<Rightarrow> 0 | Some p \<Rightarrow> toolCalls p),
                                       lastTool = None,
                                       lastUpdate = now\<rparr>\<rparr>
             in Inr (resumed,
                     m\<lparr>resumeCalls := resumeCalls m @ [(sessionId input, input_prompt input)],
                       tasks := updateBySession (tasks m) (sessionId input) resumed\<rparr>)))"

subsection \<open>\<^verbatim>\<open>buildNotificationPromptBody\<close>\<close>

record CurrentMessageModel =
  cm_providerID :: "string option"
  cm_modelID :: "string option"

record CurrentMessage =
  cm_agent :: "string option"
  cm_model :: "CurrentMessageModel option"

text \<open>
  The body is a \<^verbatim>\<open>Record<string, unknown>\<close> with the keys \<^verbatim>\<open>parts\<close>, \<^verbatim>\<open>agent\<close> and
  \<^verbatim>\<open>model\<close>; a key that was never assigned is \<open>None\<close>. A part is its type and its text.
\<close>

record PromptBody =
  parts :: "(string \<times> string) list"
  body_agent :: "string option"
  body_model :: "ModelRef option"

text \<open>An optional string in a JavaScript condition: \<^verbatim>\<open>undefined\<close> and \<^verbatim>\<open>""\<close> are falsy.\<close>

definition truthy :: "string option \<Rightarrow> bool" where
  "truthy s = (case s of None \<Rightarrow> False | Some x \<Rightarrow> x \<noteq> [])"

definition buildNotificationPromptBody :: "BackgroundTask \<Rightarrow> CurrentMessage option \<Rightarrow> PromptBody" where
  "buildNotificationPromptBody task currentMessage =
     (let body = \<lparr>parts = [(''text'',
                     ''[BACKGROUND TASK COMPLETED] Task '' @ [CHR 0x22] @ description task @
                     [CHR 0x22] @ '' finished.'')],
                  body_agent = None, body_model = None\<rparr>;
          agent = (case Option.bind currentMessage cm_agent of
                     Some a \<Rightarrow> Some a | None \<Rightarrow> parentAgent task);
          liveModel = Option.bind currentMessage cm_model;
          liveProvider = Option.bind liveModel cm_providerID;
          liveModelID = Option.bind liveModel cm_modelID;
          model = (if truthy liveProvider \<and> truthy liveModelID
                   then (case (liveProvider, liveModelID) of
                           (Some p, Some i) \<Rightarrow> Some \<lparr>providerID = p, modelID = i\<rparr>
                         | _ \<Rightarrow> None)
                   else None);
          body1 = (if agent \<noteq> None then body\<lparr>body_agent := agent\<rparr> else body);
          body2 = (if model \<noteq> None then body1\<lparr>body_model := model\<rparr> else body1)
      in body2)"

text \<open>
  What the body is compared with: the agent of the live message, if there is a message
  and it has one; and the model of the live message, if there is one and both its
  \<^verbatim>\<open>providerID\<close> and its \<^verbatim>\<open>modelID\<close> are present and not empty.
\<close>

definition liveAgent :: "CurrentMessage option \<Rightarrow> string option" where
  "liveAgent currentMessage = (case currentMessage of None \<Rightarrow> None | Some c \<Rightarrow> cm_agent c)"

definition liveFullModel :: "CurrentMessage option \<Rightarrow> ModelRef option" where
  "liveFullModel currentMessage =
     (case currentMessage of
        None \<Rightarrow> None
      | Some c \<Rightarrow>
          (case cm_model c of
             None \<Rightarrow> None
           | Some mo \<Rightarrow>
               (case (cm_providerID mo, cm_modelID mo) of
                  (Some p, Some i) \<Rightarrow>
                    if p \<noteq> [] \<and> i \<noteq> [] then Some \<lparr>providerID = p, modelID = i\<rparr> else None
                | _ \<Rightarrow> None)))"

section \<open>The scheduler proper, from the specification\<close>

text \<open>
  \<^verbatim>\<open>manager.ts\<close> and \<^verbatim>\<open>concurrency.ts\<close>, the files of \<^verbatim>\<open>BackgroundManager\<close> and
  \<^verbatim>\<open>ConcurrencyManager\<close>, are not among the sources: the test file only calls them. What
  follows models them from the specification, sections 4.1 to 4.4 and 5.
\<close>

subsection \<open>The concurrency admission gate\<close>

text \<open>
  Modelled from the spec: the state of \<^verbatim>\<open>ConcurrencyManager\<close> (\<^verbatim>\<open>concurrency.ts\<close> is
  missing). Section 3, "Concurrency Slot -- (key, count, capacity, waiter queue)", and
  section 4.1, "Capacity is configurable per key, with a default applied when a key has no
  explicit capacity". Counts are JavaScript numbers, so integers; a waiter is the number
  of the suspended call.
\<close>

record ConcurrencyManager =
  capacities :: "string \<Rightarrow> int option"
  defaultConcurrency :: int
  counts :: "string \<Rightarrow> int"
  queues :: "string \<Rightarrow> nat list"

text \<open>Modelled from the spec: a gate with nothing held and nobody waiting (\<^verbatim>\<open>concurrency.ts\<close> is missing).\<close>

definition newConcurrencyManager :: "(string \<Rightarrow> int option) \<Rightarrow> int \<Rightarrow> ConcurrencyManager" where
  "newConcurrencyManager caps dflt =
     \<lparr>capacities = caps, defaultConcurrency = dflt, counts = (\<lambda>key. 0), queues = (\<lambda>key. [])\<rparr>"

text \<open>
  Modelled from the spec: the capacity of a key (\<^verbatim>\<open>concurrency.ts\<close> is missing), section
  4.1: the explicit capacity, or the default.
\<close>

definition getConcurrencyLimit :: "ConcurrencyManager \<Rightarrow> string \<Rightarrow> int" where
  "getConcurrencyLimit g key =
     (case capacities g key of Some n \<Rightarrow> n | None \<Rightarrow> defaultConcurrency g)"

text \<open>
  Modelled from the spec: \<^verbatim>\<open>getCount\<close> (\<^verbatim>\<open>concurrency.ts\<close> is missing), section 4.1:
  "reports currently-held slots".
\<close>

definition getCount :: "ConcurrencyManager \<Rightarrow> string \<Rightarrow> int" where
  "getCount g key = counts g key"

datatype acquired = Granted | Suspended

text \<open>
  Modelled from the spec: \<^verbatim>\<open>acquire\<close> (\<^verbatim>\<open>concurrency.ts\<close> is missing), section 4.1:
  "returns (suspending the caller if necessary) once a slot for key is available; it never
  fails". With a free slot the call takes it and returns; without one the caller joins
  the end of the key's waiter queue and stays suspended until a release hands it a slot.
\<close>

definition acquire :: "ConcurrencyManager \<Rightarrow> string \<Rightarrow> nat \<Rightarrow> ConcurrencyManager \<times> acquired" where
  "acquire g key caller =
     (if counts g key < getConcurrencyLimit g key
      then (g\<lparr>counts := (counts g)(key := counts g key + 1)\<rparr>, Granted)
      else (g\<lparr>queues := (queues g)(key := queues g key @ [caller])\<rparr>, Suspended))"

text \<open>
  Modelled from the spec: \<^verbatim>\<open>release\<close> (\<^verbatim>\<open>concurrency.ts\<close> is missing), section 4.1:
  "frees one slot for key and, if any caller is waiting on that key, transfers the slot to
  the earliest waiter"; "calling release on a key with zero held slots is a no-op (must
  not go negative)". The result names the waiter whose \<^verbatim>\<open>acquire\<close> is resolved, if any;
  a transferred slot stays held, by the waiter.
\<close>

definition release :: "ConcurrencyManager \<Rightarrow> string \<Rightarrow> ConcurrencyManager \<times> nat option" where
  "release g key =
     (if counts g key \<le> 0 then (g, None)
      else (case queues g key of
              [] \<Rightarrow> (g\<lparr>counts := (counts g)(key := counts g key - 1)\<rparr>, None)
            | waiter # rest \<Rightarrow> (g\<lparr>queues := (queues g)(key := rest)\<rparr>, Some waiter)))"

text \<open>Sequences of calls on a gate, and the callers they suspend and resolve on a key, in order.\<close>

datatype gate_call = Acquire string nat | Release string

fun gate_step :: "ConcurrencyManager \<Rightarrow> gate_call \<Rightarrow> ConcurrencyManager" where
  "gate_step g (Acquire key caller) = fst (acquire g key caller)"
| "gate_step g (Release key) = fst (release g key)"

fun gate_run :: "ConcurrencyManager \<Rightarrow> gate_call list \<Rightarrow> ConcurrencyManager" where
  "gate_run g [] = g"
| "gate_run g (c # calls) = gate_run (gate_step g c) calls"

fun suspendedOn :: "string \<Rightarrow> ConcurrencyManager \<Rightarrow> gate_call list \<Rightarrow> nat list" where
  "suspendedOn key g [] = []"
| "suspendedOn key g (Acquire k caller # calls) =
     (if k = key \<and> snd (acquire g k caller) = Suspended then [caller] else [])
     @ suspendedOn key (gate_step g (Acquire k caller)) calls"
| "suspendedOn key g (Release k # calls) = suspendedOn key (gate_step g (Release k)) calls"

fun resolvedOn :: "string \<Rightarrow> ConcurrencyManager \<Rightarrow> gate_call list \<Rightarrow> nat list" where
  "resolvedOn key g [] = []"
| "resolvedOn key g (Acquire k caller # calls) = resolvedOn key (gate_step g (Acquire k caller)) calls"
| "resolvedOn key g (Release k # calls) =
     (if k = key then (case snd (release g k) of None \<Rightarrow> [] | Some waiter \<Rightarrow> [waiter]) else [])
     @ resolvedOn key (gate_step g (Release k)) calls"

subsection \<open>The manager: completion, the stall watchdog, resume\<close>

text \<open>
  What the manager does to its collaborators and to the gate, in the order it does it:
  a slot released, a waiter's \<^verbatim>\<open>acquire\<close> resolved, the notification prompt started for a
  task (as the task is at that moment), a failed notification delivery logged, the abort
  call started for a task, the resume prompt handed to the execution collaborator for a
  task.
\<close>

datatype event =
    Released string
  | Resolved string nat
  | NotifyParentSession BackgroundTask
  | DeliveryFailureLogged BackgroundTask
  | AbortSession BackgroundTask
  | PromptSession BackgroundTask

text \<open>
  Modelled from the spec: the state of \<^verbatim>\<open>BackgroundManager\<close> (\<^verbatim>\<open>manager.ts\<close> is missing):
  its gate, its task registry, the two timing policies of section 4.3 as configured
  (absent when not configured), and the log of events.
\<close>

record BackgroundManager =
  concurrencyManager :: ConcurrencyManager
  bm_tasks :: "(string, BackgroundTask) jsmap"
  staleTimeoutMs :: "int option"
  minRuntimeGuardMs :: "int option"
  events :: "event list"

text \<open>The event of a waiter resolved by a release, if the release resolved one.\<close>

definition resolvedEvents :: "string \<Rightarrow> nat option \<Rightarrow> event list" where
  "resolvedEvents key woken = (case woken of None \<Rightarrow> [] | Some waiter \<Rightarrow> [Resolved key waiter])"

text \<open>
  Modelled from the spec: releasing the slot a task holds (\<^verbatim>\<open>manager.ts\<close> is missing),
  sections 4.2 (c) and 4.3: "release the held concurrencyKey and clear it from the task".
\<close>

definition releaseTaskSlot :: "BackgroundManager \<Rightarrow> BackgroundTask \<Rightarrow> BackgroundManager \<times> BackgroundTask" where
  "releaseTaskSlot bm task =
     (case concurrencyKey task of
        None \<Rightarrow> (bm, task)
      | Some key \<Rightarrow>
          (case release (concurrencyManager bm) key of
             (g, woken) \<Rightarrow>
               (bm\<lparr>concurrencyManager := g,
                   events := events bm @ [Released key] @ resolvedEvents key woken\<rparr>,
                task\<lparr>concurrencyKey := None\<rparr>)))"

text \<open>
  How the send of a notification ends, section 4.4: it is delivered, or "the underlying
  send hangs, times out, or throws".
\<close>

datatype delivery = Delivered | Hangs | TimesOut | Throws

text \<open>
  Modelled from the spec: what Notification Delivery leaves in the log for an outcome
  (\<^verbatim>\<open>manager.ts\<close> is missing), section 4.4: "Delivery failures (the underlying send hangs,
  times out, or throws) must be caught and logged, never propagated to the caller of
  tryCompleteTask".
\<close>

definition deliveryLog :: "delivery \<Rightarrow> BackgroundTask \<Rightarrow> event list" where
  "deliveryLog outcome task =
     (case outcome of Delivered \<Rightarrow> [] | _ \<Rightarrow> [DeliveryFailureLogged task])"

text \<open>
  Modelled from the spec: the registry holds the task records themselves (\<^verbatim>\<open>manager.ts\<close>
  is missing; section 2, the Lifecycle Manager "owns the task map"), so a change made to a
  task shows in the entry that holds it: \<open>storeTask bm task task'\<close> puts \<open>task'\<close> where
  the registry holds \<open>task\<close> under its id, and changes nothing when it does not hold it.
\<close>

definition storeTask :: "BackgroundManager \<Rightarrow> BackgroundTask \<Rightarrow> BackgroundTask \<Rightarrow> BackgroundManager" where
  "storeTask bm task task' =
     (if map_get (bm_tasks bm) (task_id task) = Some task
      then bm\<lparr>bm_tasks := map_set (bm_tasks bm) (task_id task) task'\<rparr>
      else bm)"

text \<open>
  Modelled from the spec: \<^verbatim>\<open>tryCompleteTask\<close> (\<^verbatim>\<open>manager.ts\<close> is missing), section 4.2:
  "(a) verify the task is still running -- if already terminal, return did not act without
  side effects; (b) mark completed, set completedAt; (c) release the held concurrencyKey
  and clear it from the task before any notification is attempted; (d) invoke Notification
  Delivery. Returns whether it actually performed the transition." By section 4.4 no
  outcome of the delivery reaches the caller: the call returns true whatever the send
  does. The result is what the call returns, the task as the call leaves it, and the
  manager as the call leaves it.
\<close>

definition tryCompleteTask ::
  "BackgroundManager \<Rightarrow> int \<Rightarrow> (BackgroundTask \<Rightarrow> delivery) \<Rightarrow> BackgroundTask \<Rightarrow>
   bool \<times> BackgroundTask \<times> BackgroundManager" where
  "tryCompleteTask bm now notifyParentSession task =
     (if status task \<noteq> Running then (False, task, bm)
      else
        (let task1 = task\<lparr>status := Completed, completedAt := Some now\<rparr>
         in case releaseTaskSlot bm task1 of
              (bm2, task2) \<Rightarrow>
                (let bm3 = storeTask bm2 task task2;
                     bm4 = bm3\<lparr>events := events bm3 @ [NotifyParentSession task2]
                                        @ deliveryLog (notifyParentSession task2) task2\<rparr>
                 in (True, task2, bm4))))"

text \<open>
  Modelled from the spec: the defaults of the two timing policies (\<^verbatim>\<open>manager.ts\<close> is
  missing), section 4.3: "a sensible default (e.g. 3 minutes) and a default
  minimum-runtime guard (e.g. 30 seconds) apply when not configured".
\<close>

definition DEFAULT_STALE_TIMEOUT_MS :: int where
  "DEFAULT_STALE_TIMEOUT_MS = 180000"

definition DEFAULT_MIN_RUNTIME_GUARD_MS :: int where
  "DEFAULT_MIN_RUNTIME_GUARD_MS = 30000"

text \<open>Modelled from the spec: the stale timeout in force (\<^verbatim>\<open>manager.ts\<close> is missing), section 4.3.\<close>

definition staleTimeout :: "BackgroundManager \<Rightarrow> int" where
  "staleTimeout bm = (case staleTimeoutMs bm of Some ms \<Rightarrow> ms | None \<Rightarrow> DEFAULT_STALE_TIMEOUT_MS)"

text \<open>Modelled from the spec: the minimum-runtime guard in force (\<^verbatim>\<open>manager.ts\<close> is missing), section 4.3.\<close>

definition minRuntimeGuard :: "BackgroundManager \<Rightarrow> int" where
  "minRuntimeGuard bm =
     (case minRuntimeGuardMs bm of Some ms \<Rightarrow> ms | None \<Rightarrow> DEFAULT_MIN_RUNTIME_GUARD_MS)"

text \<open>
  Modelled from the spec: the staleness test (\<^verbatim>\<open>manager.ts\<close> is missing), section 4.3:
  "For every task with status=running: let age = now - startedAt, idle = now -
  progress.lastUpdate. A task is declared stale, and cancelled, only when both idle >
  staleTimeoutMs and age > minRuntimeGuardMs." The specification does not say what happens
  to a task that has no progress snapshot; the model leaves it alone.
\<close>

definition isStale :: "BackgroundManager \<Rightarrow> int \<Rightarrow> BackgroundTask \<Rightarrow> bool" where
  "isStale bm now task =
     (status task = Running \<and>
      (case progress task of
         None \<Rightarrow> False
       | Some p \<Rightarrow>
           (let age = now - startedAt task; idle = now - lastUpdate p
            in idle > staleTimeout bm \<and> age > minRuntimeGuard bm)))"

text \<open>A natural number in decimal, as a template literal prints it.\<close>

fun showNat :: "nat \<Rightarrow> string" where
  "showNat n =
     (if n < 10 then [''0123456789'' ! n]
      else showNat (n div 10) @ [''0123456789'' ! (n mod 10)])"

declare showNat.simps [simp del]

text \<open>
  Modelled from the spec: the error text of a stale cancellation (\<^verbatim>\<open>manager.ts\<close> is
  missing), section 4.3: "error message stating a stale timeout occurred and the configured
  threshold (e.g., expressed in minutes)", section 8: "contains Stale timeout and a
  readable 3min-style threshold". Whole minutes, rounded down.
\<close>

definition staleError :: "int \<Rightarrow> string" where
  "staleError thresholdMs = ''Stale timeout ('' @ showNat (nat (thresholdMs div 60000)) @ ''min)''"

text \<open>
  Modelled from the spec: the cancellation of one stale task (\<^verbatim>\<open>manager.ts\<close> is missing),
  section 4.3: "release the task's concurrencyKey before issuing the external abort call to
  the execution collaborator; set status=cancelled, completedAt=now, error message". The
  abort call is started and not waited for (section 5: the watchdog "must not block on a
  slow abort call").
\<close>

definition cancelStaleTask :: "BackgroundManager \<Rightarrow> int \<Rightarrow> BackgroundTask \<Rightarrow> BackgroundManager \<times> BackgroundTask" where
  "cancelStaleTask bm now task =
     (let task1 = task\<lparr>status := Cancelled, completedAt := Some now,
                       error := Some (staleError (staleTimeout bm))\<rparr>
      in case releaseTaskSlot bm task1 of
           (bm2, task2) \<Rightarrow> (bm2\<lparr>events := events bm2 @ [AbortSession task2]\<rparr>, task2))"

text \<open>
  Modelled from the spec: one poll cycle of the watchdog (\<^verbatim>\<open>manager.ts\<close> is missing),
  section 4.3: every task of the registry is examined, and "multiple stale tasks in the
  same poll cycle are each processed independently". The first argument is what is left of
  the registry to visit.
\<close>

fun interruptLoop :: "(string \<times> BackgroundTask) list \<Rightarrow> int \<Rightarrow> BackgroundManager \<Rightarrow> BackgroundManager" where
  "interruptLoop [] now bm = bm"
| "interruptLoop ((tid, task) # entries) now bm =
     (if isStale bm now task
      then (case cancelStaleTask bm now task of
              (bm2, task2) \<Rightarrow>
                interruptLoop entries now (bm2\<lparr>bm_tasks := map_set (bm_tasks bm2) tid task2\<rparr>))
      else interruptLoop entries now bm)"

text \<open>Modelled from the spec: \<^verbatim>\<open>checkAndInterruptStaleTasks\<close> (\<^verbatim>\<open>manager.ts\<close> is missing), section 4.3.\<close>

definition checkAndInterruptStaleTasks :: "BackgroundManager \<Rightarrow> int \<Rightarrow> BackgroundManager" where
  "checkAndInterruptStaleTasks bm now = interruptLoop (bm_tasks bm) now bm"

text \<open>
  Modelled from the spec: the state transition of a resume (\<^verbatim>\<open>manager.ts\<close> is missing),
  section 4.2: "clear completedAt and error; reset status to running; overwrite
  parentSessionID/parentMessageID/parentModel with the new caller's context while preserving
  id, execution session id, description, agent, and accumulated progress.toolCalls". The
  key the task was admitted under is the one it keeps in \<^verbatim>\<open>concurrencyGroup\<close>: completion
  clears \<^verbatim>\<open>concurrencyKey\<close>, and the test "should re-acquire using external task concurrency
  key" finds the key again after a completion and a resume. As in the mock, the activity
  timestamp restarts at the resume.
\<close>

definition resumeTransition :: "int \<Rightarrow> ResumeInput \<Rightarrow> BackgroundTask \<Rightarrow> BackgroundTask" where
  "resumeTransition now input task =
     task\<lparr>status := Running,
          completedAt := None,
          error := None,
          parentSessionID := input_parentSessionID input,
          parentMessageID := input_parentMessageID input,
          parentModel := input_parentModel input,
          concurrencyKey := concurrencyGroup task,
          progress := Some \<lparr>toolCalls = (case progress task of None \<Rightarrow> 0 | Some p \<Rightarrow> toolCalls p),
                             lastTool = None, lastUpdate = now\<rparr>\<rparr>"

text \<open>
  How a call of \<^verbatim>\<open>resume\<close> stands once it has done what it can: it has returned a task,
  or it is suspended in \<^verbatim>\<open>acquire\<close>, queued on the gate.
\<close>

datatype resume_outcome = Returned BackgroundTask BackgroundManager | AwaitingSlot BackgroundManager

text \<open>
  Modelled from the spec: what \<^verbatim>\<open>resume\<close> does once it has its slot (\<^verbatim>\<open>manager.ts\<close> is
  missing), section 4.2: the state transition, on the task the registry holds, and then
  the resume prompt: "the actual delivery of the resume prompt to the execution
  collaborator happens after this state transition".
\<close>

definition finishResume :: "BackgroundManager \<Rightarrow> int \<Rightarrow> ResumeInput \<Rightarrow> BackgroundTask \<Rightarrow> resume_outcome" where
  "finishResume bm now input task =
     (let resumed = resumeTransition now input task
      in Returned resumed
           (bm\<lparr>bm_tasks := updateBySession (bm_tasks bm) (sessionId input) resumed,
               events := events bm @ [PromptSession resumed]\<rparr>))"

text \<open>
  Modelled from the spec: \<^verbatim>\<open>BackgroundManager.resume\<close> (\<^verbatim>\<open>manager.ts\<close> is missing),
  section 4.2: "if no task exists for sessionId, fails with a not-found condition naming the
  session id. If the task is already running, this is a no-op that returns the unchanged
  task. Otherwise: re-acquire the Admission Gate using the task's previously stored
  concurrencyKey (if any -- tasks without a key resume without re-acquiring)", then the
  state transition. \<open>caller\<close> is the number of this call, under which it waits on the gate
  when no slot is free.
\<close>

definition bm_resume ::
  "BackgroundManager \<Rightarrow> int \<Rightarrow> nat \<Rightarrow> ResumeInput \<Rightarrow> js_error + resume_outcome" where
  "bm_resume bm now caller input =
     (case find (\<lambda>task. sessionID task = sessionId input) (map_values (bm_tasks bm)) of
        None \<Rightarrow> Inl (Error (''Task not found for session: '' @ sessionId input))
      | Some existingTask \<Rightarrow>
          if status existingTask = Running then Inr (Returned existingTask bm)
          else
            (case concurrencyGroup existingTask of
               None \<Rightarrow> Inr (finishResume bm now input existingTask)
             | Some key \<Rightarrow>
                 (case acquire (concurrencyManager bm) key caller of
                    (g, Granted) \<Rightarrow>
                      Inr (finishResume (bm\<lparr>concurrencyManager := g\<rparr>) now input existingTask)
                  | (g, Suspended) \<Rightarrow> Inr (AwaitingSlot (bm\<lparr>concurrencyManager := g\<rparr>)))))"

section \<open>Inputs of the tests, and what the results are compared with\<close>

text \<open>
  The chain A \<open>\<rightarrow>\<close> B \<open>\<rightarrow>\<close> C \<open>\<rightarrow>\<close> D of the test "3 levels deep", with the unrelated task Y
  under session X beside it; a task that is its own parent; two tasks that are each
  other's parent.
\<close>

definition chainABCD :: MockBackgroundManager where
  "chainABCD =
     addTask (addTask (addTask (addTask emptyManager
       (createMockTask 0 ''task-b'' ''session-b'' ''session-a''))
       (createMockTask 0 ''task-c'' ''session-c'' ''session-b''))
       (createMockTask 0 ''task-d'' ''session-d'' ''session-c''))
       (createMockTask 0 ''task-y'' ''session-y'' ''session-x'')"

definition selfParented :: MockBackgroundManager where
  "selfParented = addTask emptyManager (createMockTask 0 ''task-a'' ''session-a'' ''session-a'')"

definition twoCycle :: MockBackgroundManager where
  "twoCycle = addTask (addTask emptyManager
       (createMockTask 0 ''task-b'' ''session-b'' ''session-a''))
       (createMockTask 0 ''task-a'' ''session-a'' ''session-b'')"

text \<open>
  A registry with a task started 31 minutes before the clock reading 1860000 and one
  started one minute before it, a notification for each, and a notification for an old
  task that is not in the registry; and a registry with one old task and its notification.
\<close>

definition pruneExample :: MockBackgroundManager where
  "pruneExample =
     markForNotification (markForNotification (markForNotification
       (addTask (addTask emptyManager
          (createMockTask 0 ''task-stale'' ''session-stale'' ''session-parent''))
          (createMockTask 1800000 ''task-fresh'' ''session-fresh'' ''session-parent''))
       (createMockTask 0 ''task-stale'' ''session-stale'' ''session-parent''))
       (createMockTask 1800000 ''task-fresh'' ''session-fresh'' ''session-parent''))
       (createMockTask 0 ''task-gone'' ''session-gone'' ''session-other'')"

definition pruneTiedOnly :: MockBackgroundManager where
  "pruneTiedOnly =
     markForNotification
       (addTask emptyManager (createMockTask 0 ''task-stale'' ''session-stale'' ''session-parent''))
       (createMockTask 0 ''task-stale'' ''session-stale'' ''session-parent'')"

text \<open>
  A registry with one running task, and the inputs of the tests "should ignore resume when
  task is already running" and "should throw error when task not found".
\<close>

definition runningRegistry :: MockBackgroundManager where
  "runningRegistry = addTask emptyManager (createMockTask 0 ''task-a'' ''session-a'' ''session-parent'')"

definition resumeIgnored :: ResumeInput where
  "resumeIgnored = \<lparr>sessionId = ''session-a'', input_prompt = ''resume should be ignored'',
     input_parentSessionID = ''new-parent'', input_parentMessageID = ''new-msg'',
     input_parentModel = None\<rparr>"

definition resumeNonExistent :: ResumeInput where
  "resumeNonExistent = \<lparr>sessionId = ''non-existent'', input_prompt = ''continue'',
     input_parentSessionID = ''session-new'', input_parentMessageID = ''msg-new'',
     input_parentModel = None\<rparr>"

text \<open>
  A completed task whose stored \<^verbatim>\<open>parentAgent\<close> differs from the agent of the live
  message, a live message whose model lacks its \<^verbatim>\<open>modelID\<close>, and one with a full model.
\<close>

definition completedTask3 :: BackgroundTask where
  "completedTask3 =
     (createMockTask 0 ''task-3'' ''session-child'' ''session-parent'')
       \<lparr>parentMessageID := ''msg-parent'', description := ''task incomplete model'',
        prompt := ''test'', agent := ''explore'', status := Completed, completedAt := Some 0,
        parentAgent := Some ''FallbackAgent'',
        parentModel := Some \<lparr>providerID = ''anthropic'', modelID = ''claude-opus''\<rparr>\<rparr>"

definition incompleteMessage :: CurrentMessage where
  "incompleteMessage =
     \<lparr>cm_agent = Some ''Sisyphus'',
      cm_model = Some \<lparr>cm_providerID = Some ''anthropic'', cm_modelID = None\<rparr>\<rparr>"

definition completeMessage :: CurrentMessage where
  "completeMessage =
     \<lparr>cm_agent = Some ''Sisyphus'',
      cm_model = Some \<lparr>cm_providerID = Some ''anthropic'', cm_modelID = Some ''claude-opus-4-5''\<rparr>\<rparr>"

text \<open>
  The gate of the test "should unblock queued task even when prompt hangs": capacity 1
  for every key; then with the slot of \<^verbatim>\<open>explore\<close> taken by call 1; then with call 2
  waiting for it.
\<close>

definition exploreGate :: ConcurrencyManager where
  "exploreGate = newConcurrencyManager (\<lambda>key. None) 1"

definition exploreGateHeld :: ConcurrencyManager where
  "exploreGateHeld = fst (acquire exploreGate ''explore'' 1)"

definition exploreGateWaiting :: ConcurrencyManager where
  "exploreGateWaiting = fst (acquire exploreGateHeld ''explore'' 2)"

text \<open>
  The running task of the \<^verbatim>\<open>tryCompleteTask\<close> tests, admitted under the key \<^verbatim>\<open>explore\<close>
  and holding it, and a manager around a given gate whose registry holds a given task,
  with the default timing policies and no event yet.
\<close>

definition runningExplore :: BackgroundTask where
  "runningExplore =
     (createMockTask 0 ''task-1'' ''session-1'' ''session-parent'')
       \<lparr>parentMessageID := ''msg-1'', prompt := ''test'', agent := ''explore'',
        concurrencyKey := Some ''explore'', concurrencyGroup := Some ''explore''\<rparr>"

definition managerWith :: "ConcurrencyManager \<Rightarrow> BackgroundTask \<Rightarrow> BackgroundManager" where
  "managerWith g task = \<lparr>concurrencyManager = g, bm_tasks = [(task_id task, task)],
                         staleTimeoutMs = None, minRuntimeGuardMs = None, events = []\<rparr>"

text \<open>
  The registry holds a task as the task of its session: its keys are distinct and are the
  ids of the tasks, and the task is the one a lookup by its execution session finds.
\<close>

definition registered :: "BackgroundManager \<Rightarrow> BackgroundTask \<Rightarrow> bool" where
  "registered bm task =
     (distinct (map fst (bm_tasks bm))
      \<and> (\<forall>e \<in> set (bm_tasks bm). fst e = task_id (snd e))
      \<and> find (\<lambda>t. sessionID t = sessionID task) (map_values (bm_tasks bm)) = Some task)"

text \<open>The input of a resume of the session of that task.\<close>

definition resumeExplore :: ResumeInput where
  "resumeExplore = \<lparr>sessionId = ''session-1'', input_prompt = ''resume'',
     input_parentSessionID = ''parent-session-2'', input_parentMessageID = ''msg-2'',
     input_parentModel = None\<rparr>"

text \<open>
  That task with the times of the test "should release concurrency before abort": at time
  1000000 it is 300 s old and 200 s idle.
\<close>

definition staleExplore :: BackgroundTask where
  "staleExplore =
     runningExplore\<lparr>startedAt := 700000,
                    progress := Some \<lparr>toolCalls = 1, lastTool = None, lastUpdate = 800000\<rparr>\<rparr>"

text \<open>What a poll cycle at time \<open>now\<close> makes of one task of the registry.\<close>

definition watched :: "BackgroundManager \<Rightarrow> int \<Rightarrow> BackgroundTask \<Rightarrow> BackgroundTask" where
  "watched bm now task =
     (if isStale bm now task
      then task\<lparr>status := Cancelled, completedAt := Some now,
                error := Some (staleError (staleTimeout bm)), concurrencyKey := None\<rparr>
      else task)"

text \<open>
  The tasks of the tests "min runtime guard" and "stale lastUpdate", read at the clock
  1000000: one started 20 s ago and one started 300 s ago, both idle for 200 s, under a
  configured timeout of 180000 ms.
\<close>

definition youngTask :: BackgroundTask where
  "youngTask =
     (createMockTask 980000 ''task-1'' ''session-1'' ''parent-1'')
       \<lparr>parentMessageID := ''msg-1'', description := ''Test task'', prompt := ''Test'',
        progress := Some \<lparr>toolCalls = 0, lastTool = None, lastUpdate = 800000\<rparr>\<rparr>"

definition staleTask :: BackgroundTask where
  "staleTask =
     (createMockTask 700000 ''task-3'' ''session-3'' ''parent-3'')
       \<lparr>parentMessageID := ''msg-3'', description := ''Stale task'', prompt := ''Test'',
        progress := Some \<lparr>toolCalls = 2, lastTool = None, lastUpdate = 800000\<rparr>\<rparr>"

definition watchExample :: BackgroundManager where
  "watchExample =
     \<lparr>concurrencyManager = newConcurrencyManager (\<lambda>key. None) 5,
      bm_tasks = [(''task-1'', youngTask), (''task-3'', staleTask)],
      staleTimeoutMs = Some 180000, minRuntimeGuardMs = None, events = []\<rparr>"

text \<open>
  What claim C6 asks of the task \<open>r\<close> that a resume with \<open>input\<close> makes of the terminal
  task \<open>t\<close>: running, \<^verbatim>\<open>completedAt\<close> and \<^verbatim>\<open>error\<close> cleared, the parent context of the
  input, and the identity, the description, the agent and the tool call count of \<open>t\<close> (0
  when \<open>t\<close> had no progress snapshot).
\<close>

definition resumedFrom :: "ResumeInput \<Rightarrow> BackgroundTask \<Rightarrow> BackgroundTask \<Rightarrow> bool" where
  "resumedFrom input t r =
     (status r = Running \<and> completedAt r = None \<and> error r = None
      \<and> parentSessionID r = input_parentSessionID input
      \<and> parentMessageID r = input_parentMessageID input
      \<and> parentModel r = input_parentModel input
      \<and> task_id r = task_id t \<and> sessionID r = sessionID t
      \<and> description r = description t \<and> agent r = agent t
      \<and> map_option toolCalls (progress r) =
          Some (case progress t of None \<Rightarrow> 0 | Some p \<Rightarrow> toolCalls p))"

text \<open>
  The completed task of the resume tests, admitted under the key \<^verbatim>\<open>external-key\<close> and
  holding no slot now; the mock registry and the manager that hold it; the input of the
  test "should preserve task identity while updating parent context".
\<close>

definition completedTaskA :: BackgroundTask where
  "completedTaskA =
     (createMockTask 0 ''task-a'' ''session-a'' ''old-parent'')
       \<lparr>description := ''original description'', agent := ''explore'', status := Completed,
        completedAt := Some 3, error := Some ''previous error'',
        progress := Some \<lparr>toolCalls = 42, lastTool = Some ''read'', lastUpdate = 2\<rparr>,
        concurrencyGroup := Some ''external-key''\<rparr>"

definition completedRegistry :: MockBackgroundManager where
  "completedRegistry = addTask emptyManager completedTaskA"

definition completedManager :: BackgroundManager where
  "completedManager =
     \<lparr>concurrencyManager = newConcurrencyManager (\<lambda>key. None) 5,
      bm_tasks = [(''task-a'', completedTaskA)],
      staleTimeoutMs = None, minRuntimeGuardMs = None, events = []\<rparr>"

definition resumeNewParent :: ResumeInput where
  "resumeNewParent = \<lparr>sessionId = ''session-a'', input_prompt = ''new prompt'',
     input_parentSessionID = ''new-parent'', input_parentMessageID = ''new-msg'',
     input_parentModel = Some \<lparr>providerID = ''anthropic'', modelID = ''claude-opus''\<rparr>\<rparr>"

section \<open>Descendants: what \<^verbatim>\<open>getAllDescendantTasks\<close> returns, and when\<close>

lemma descendantsOf_Nil: "descendantsOf m [] = Some []"
  by (subst descendantsOf.simps) simp


lemma descendantsOf_Cons:
  "descendantsOf m (child # rest) =
     Option.bind (descendantsOf m (getTasksByParentSession m (sessionID child)))
       (\<lambda>descendants. Option.bind (descendantsOf m rest) (\<lambda>more. Some (child # descendants @ more)))"
  by (subst descendantsOf.simps) simp

lemma in_getTasksByParentSession:
  "t \<in> set (getTasksByParentSession m sid) \<longleftrightarrow>
     t \<in> set (map_values (tasks m)) \<and> parentSessionID t = sid"
  by (auto simp: getTasksByParentSession_def)

lemma isDescendant_child:
  "t \<in> set (getTasksByParentSession m sid) \<Longrightarrow> isDescendant m sid t"
  by (simp add: in_getTasksByParentSession isDescendant.direct)

lemma isDescendant_via_child:
  assumes "isDescendant m (sessionID c) t" and "c \<in> set (getTasksByParentSession m sid)"
  shows "isDescendant m sid t"
  using assms
proof (induction rule: isDescendant.induct)
  case (direct t)
  then show ?case
    using isDescendant_child isDescendant.nested by blast
next
  case (nested u t)
  then show ?case by (meson isDescendant.nested)
qed

lemma isDescendant_cases_child:
  assumes "isDescendant m sid t"
  shows "t \<in> set (getTasksByParentSession m sid) \<or>
         (\<exists>c \<in> set (getTasksByParentSession m sid). isDescendant m (sessionID c) t)"
  using assms
proof (induction rule: isDescendant.induct)
  case (direct t)
  then show ?case by (simp add: in_getTasksByParentSession)
next
  case (nested u t)
  from nested.IH show ?case
  proof
    assume "u \<in> set (getTasksByParentSession m sid)"
    moreover have "isDescendant m (sessionID u) t"
      using nested.hyps by (simp add: isDescendant.direct)
    ultimately show ?thesis by blast
  next
    assume "\<exists>c \<in> set (getTasksByParentSession m sid). isDescendant m (sessionID c) u"
    then show ?thesis using nested.hyps isDescendant.nested by blast
  qed
qed

lemma isDescendant_unfold:
  "{t. isDescendant m sid t} =
     set (getTasksByParentSession m sid) \<union>
     {t. \<exists>c \<in> set (getTasksByParentSession m sid). isDescendant m (sessionID c) t}"
  using isDescendant_cases_child isDescendant_via_child isDescendant_child by blast

lemma descendantsOf_set:
  "descendantsOf m children = Some ys \<Longrightarrow>
     set ys = set children \<union> {t. \<exists>c \<in> set children. isDescendant m (sessionID c) t}"
proof (induction rule: descendantsOf.raw_induct[rotated, consumes 1, case_names step])
  case (step f m children ys)
  show ?case
  proof (cases children)
    case Nil
    with step(2) show ?thesis by simp
  next
    case (Cons child rest)
    with step(2) obtain ds more where
      ds: "f m (getTasksByParentSession m (sessionID child)) = Some ds" and
      more: "f m rest = Some more" and ys: "ys = child # ds @ more"
      by (auto simp: bind_eq_Some_conv)
    have "set ds = {t. isDescendant m (sessionID child) t}"
      using step(1)[OF ds] isDescendant_unfold[of m "sessionID child"] by simp
    moreover have "set more = set rest \<union> {t. \<exists>c \<in> set rest. isDescendant m (sessionID c) t}"
      using step(1)[OF more] .
    ultimately show ?thesis using ys Cons by auto
  qed
qed

lemma getAllDescendantTasks_set:
  "getAllDescendantTasks m sid = Some ys \<Longrightarrow> set ys = {t. isDescendant m sid t}"
  unfolding getAllDescendantTasks_def
  using descendantsOf_set[of m "getTasksByParentSession m sid" ys] isDescendant_unfold[of m sid]
  by simp

lemma descendantsOf_all:
  "(\<And>c. c \<in> set children \<Longrightarrow> \<exists>ys. descendantsOf m (getTasksByParentSession m (sessionID c)) = Some ys)
     \<Longrightarrow> \<exists>ys. descendantsOf m children = Some ys"
proof (induction children)
  case Nil
  then show ?case by (simp add: descendantsOf_Nil)
next
  case (Cons c rest)
  obtain ds where ds: "descendantsOf m (getTasksByParentSession m (sessionID c)) = Some ds"
    using Cons.prems[of c] by auto
  obtain more where more: "descendantsOf m rest = Some more"
    using Cons.IH Cons.prems by auto
  show ?case by (simp add: descendantsOf_Cons ds more)
qed

lemma isDescendant_in_registry:
  "isDescendant m sid t \<Longrightarrow> t \<in> set (map_values (tasks m))"
  by (induction rule: isDescendant.induct) auto

lemma finite_isDescendant: "finite {t. isDescendant m sid t}"
  by (rule finite_subset[of _ "set (map_values (tasks m))"]) (auto dest: isDescendant_in_registry)

lemma isDescendant_card_less:
  assumes c: "c \<in> set (getTasksByParentSession m sid)"
    and nc: "\<not> isDescendant m (sessionID c) c"
  shows "card {t. isDescendant m (sessionID c) t} < card {t. isDescendant m sid t}"
proof (rule psubset_card_mono[OF finite_isDescendant])
  have "{t. isDescendant m (sessionID c) t} \<subseteq> {t. isDescendant m sid t}"
    using isDescendant_via_child[OF _ c] by blast
  moreover have "c \<in> {t. isDescendant m sid t}" using c by (simp add: isDescendant_child)
  ultimately show "{t. isDescendant m (sessionID c) t} \<subset> {t. isDescendant m sid t}"
    using nc by blast
qed

lemma descendantsOf_terminates:
  "\<not> cyclicBelow m sid \<Longrightarrow> \<exists>ys. descendantsOf m (getTasksByParentSession m sid) = Some ys"
proof (induction "card {t. isDescendant m sid t}" arbitrary: sid rule: less_induct)
  case less
  show ?case
  proof (rule descendantsOf_all)
    fix c assume c: "c \<in> set (getTasksByParentSession m sid)"
    have cd: "isDescendant m sid c" using c by (rule isDescendant_child)
    have nc: "\<not> isDescendant m (sessionID c) c"
      using less.prems cd by (auto simp: cyclicBelow_def)
    have "\<not> cyclicBelow m (sessionID c)"
      using less.prems isDescendant_via_child[OF _ c] by (auto simp: cyclicBelow_def)
    with less.hyps[OF isDescendant_card_less[OF c nc]]
    show "\<exists>ys. descendantsOf m (getTasksByParentSession m (sessionID c)) = Some ys" by simp
  qed
qed

lemma descendantsOf_acyclic:
  "descendantsOf m children = Some ys \<Longrightarrow>
     \<forall>c \<in> set children. \<not> isDescendant m (sessionID c) c \<and>
        (\<forall>t. isDescendant m (sessionID c) t \<longrightarrow> \<not> isDescendant m (sessionID t) t)"
proof (induction rule: descendantsOf.raw_induct[rotated, consumes 1, case_names step])
  case (step f m children ys)
  show ?case
  proof (cases children)
    case Nil
    then show ?thesis by simp
  next
    case (Cons child rest)
    with step(2) obtain ds more where
      ds: "f m (getTasksByParentSession m (sessionID child)) = Some ds" and
      more: "f m rest = Some more"
      by (auto simp: bind_eq_Some_conv)
    have below: "\<forall>t. isDescendant m (sessionID child) t \<longrightarrow> \<not> isDescendant m (sessionID t) t"
    proof (intro allI impI)
      fix t assume "isDescendant m (sessionID child) t"
      then consider "t \<in> set (getTasksByParentSession m (sessionID child))"
        | c where "c \<in> set (getTasksByParentSession m (sessionID child))" "isDescendant m (sessionID c) t"
        using isDescendant_cases_child by blast
      then show "\<not> isDescendant m (sessionID t) t"
        using step(1)[OF ds] by cases blast+
    qed
    moreover have "\<not> isDescendant m (sessionID child) child" using below by blast
    ultimately show ?thesis using step(1)[OF more] Cons by simp
  qed
qed

lemma getAllDescendantTasks_acyclic:
  assumes "getAllDescendantTasks m sid = Some ys"
  shows "\<not> cyclicBelow m sid"
proof -
  have "descendantsOf m (getTasksByParentSession m sid) = Some ys"
    using assms by (simp add: getAllDescendantTasks_def)
  from descendantsOf_acyclic[OF this] show ?thesis
    unfolding cyclicBelow_def using isDescendant_cases_child[of m sid] by blast
qed

lemma ranked_not_cyclic:
  assumes rank: "\<And>t. t \<in> set (map_values (tasks m)) \<Longrightarrow> (rank (sessionID t) :: nat) < rank (parentSessionID t)"
  shows "\<not> cyclicBelow m sid"
proof -
  have "isDescendant m s t \<Longrightarrow> rank (sessionID t) < rank s" for s t
  proof (induction rule: isDescendant.induct)
    case (direct t)
    then show ?case using rank by auto
  next
    case (nested u t)
    then show ?case using rank[of t] by auto
  qed
  then show ?thesis unfolding cyclicBelow_def by (metis less_irrefl)
qed

lemma chainABCD_tasks:
  "tasks chainABCD =
     [(''task-b'', createMockTask 0 ''task-b'' ''session-b'' ''session-a''),
      (''task-c'', createMockTask 0 ''task-c'' ''session-c'' ''session-b''),
      (''task-d'', createMockTask 0 ''task-d'' ''session-d'' ''session-c''),
      (''task-y'', createMockTask 0 ''task-y'' ''session-y'' ''session-x'')]"
  by (simp add: chainABCD_def addTask_def emptyManager_def createMockTask_def)

lemma chainABCD_descendants:
  "getAllDescendantTasks chainABCD ''session-a'' =
     Some [createMockTask 0 ''task-b'' ''session-b'' ''session-a'',
           createMockTask 0 ''task-c'' ''session-c'' ''session-b'',
           createMockTask 0 ''task-d'' ''session-d'' ''session-c'']"
  by (simp add: getAllDescendantTasks_def getTasksByParentSession_def map_values_def
      chainABCD_tasks descendantsOf_Cons descendantsOf_Nil createMockTask_def)

lemma chainABCD_not_cyclic: "\<not> cyclicBelow chainABCD sid"
proof (rule ranked_not_cyclic)
  fix t assume "t \<in> set (map_values (tasks chainABCD))"
  then show "(if sessionID t = ''session-a'' then 3
              else if sessionID t = ''session-b'' then 2
              else if sessionID t = ''session-c'' then 1
              else if sessionID t = ''session-x'' then 1 else (0::nat))
           < (if parentSessionID t = ''session-a'' then 3
              else if parentSessionID t = ''session-b'' then 2
              else if parentSessionID t = ''session-c'' then 1
              else if parentSessionID t = ''session-x'' then 1 else 0)"
    by (auto simp: chainABCD_tasks map_values_def createMockTask_def)
qed

lemma twoCycle_tasks:
  "tasks twoCycle =
     [(''task-b'', createMockTask 0 ''task-b'' ''session-b'' ''session-a''),
      (''task-a'', createMockTask 0 ''task-a'' ''session-a'' ''session-b'')]"
  by (simp add: twoCycle_def addTask_def emptyManager_def createMockTask_def)

lemma twoCycle_cyclic: "cyclicBelow twoCycle ''session-a''"
proof -
  let ?b = "createMockTask 0 ''task-b'' ''session-b'' ''session-a''"
  let ?a = "createMockTask 0 ''task-a'' ''session-a'' ''session-b''"
  have b: "isDescendant twoCycle ''session-a'' ?b"
    by (rule isDescendant.direct) (simp_all add: twoCycle_tasks map_values_def createMockTask_def)
  have "isDescendant twoCycle ''session-b'' ?a"
    by (rule isDescendant.direct) (simp_all add: twoCycle_tasks map_values_def createMockTask_def)
  then have "isDescendant twoCycle ''session-b'' ?b"
    by (rule isDescendant.nested) (simp_all add: twoCycle_tasks map_values_def createMockTask_def)
  then have "isDescendant twoCycle (sessionID ?b) ?b"
    by (simp add: createMockTask_def)
  with b show ?thesis unfolding cyclicBelow_def by blast
qed

lemma selfParented_cyclic: "cyclicBelow selfParented ''session-a''"
proof -
  let ?t = "createMockTask 0 ''task-a'' ''session-a'' ''session-a''"
  have "isDescendant selfParented ''session-a'' ?t"
    by (rule isDescendant.direct)
       (simp_all add: selfParented_def addTask_def emptyManager_def map_values_def createMockTask_def)
  then show ?thesis
    unfolding cyclicBelow_def by (rule_tac x = ?t in exI) (simp add: createMockTask_def)
qed

text \<open>
  Claim C8, as the code has it. \<^verbatim>\<open>getTasksByParentSession(s)\<close> returns the tasks of the
  registry whose \<^verbatim>\<open>parentSessionID\<close> is \<open>s\<close>, the direct children, and nothing else. For a
  session with no direct child \<^verbatim>\<open>getAllDescendantTasks(s)\<close> returns the empty list. When no
  descendant of \<open>s\<close> descends from itself, \<^verbatim>\<open>getAllDescendantTasks(s)\<close> returns a list whose
  elements are exactly the tasks reached from \<open>s\<close> in one or more hops along the
  \<^verbatim>\<open>parentSessionID\<close> edge, so no task of an unrelated subtree is in it.
\<close>

theorem getAllDescendantTasks_closure:
  "(\<not> cyclicBelow m sid \<longrightarrow>
      (\<exists>ys. getAllDescendantTasks m sid = Some ys \<and> set ys = {t. isDescendant m sid t}))
   \<and> (getTasksByParentSession m sid = [] \<longrightarrow> getAllDescendantTasks m sid = Some [])
   \<and> set (getTasksByParentSession m sid) =
       {t. t \<in> set (map_values (tasks m)) \<and> parentSessionID t = sid}"
proof (intro conjI impI)
  assume "\<not> cyclicBelow m sid"
  then obtain ys where ys: "getAllDescendantTasks m sid = Some ys"
    using descendantsOf_terminates[of m sid] by (auto simp: getAllDescendantTasks_def)
  then have "set ys = {t. isDescendant m sid t}" by (rule getAllDescendantTasks_set)
  with ys show "\<exists>ys. getAllDescendantTasks m sid = Some ys \<and> set ys = {t. isDescendant m sid t}"
    by blast
next
  assume "getTasksByParentSession m sid = []"
  then show "getAllDescendantTasks m sid = Some []"
    by (simp add: getAllDescendantTasks_def descendantsOf_Nil)
next
  show "set (getTasksByParentSession m sid) =
          {t. t \<in> set (map_values (tasks m)) \<and> parentSessionID t = sid}"
    using in_getTasksByParentSession[of _ m sid] by blast
qed

text \<open>
  The chain A \<open>\<rightarrow>\<close> B \<open>\<rightarrow>\<close> C \<open>\<rightarrow>\<close> D: the descendants of A are B, C and D, in that order, the
  unrelated task Y is not among them, and a session without children has none.
\<close>

theorem getAllDescendantTasks_closure_witness:
  "\<not> cyclicBelow chainABCD ''session-a''
   \<and> (\<exists>ys. getAllDescendantTasks chainABCD ''session-a'' = Some ys
         \<and> set ys = {t. isDescendant chainABCD ''session-a'' t})
   \<and> getAllDescendantTasks chainABCD ''session-a'' =
       Some [createMockTask 0 ''task-b'' ''session-b'' ''session-a'',
             createMockTask 0 ''task-c'' ''session-c'' ''session-b'',
             createMockTask 0 ''task-d'' ''session-d'' ''session-c'']
   \<and> getTasksByParentSession chainABCD ''session-d'' = []
   \<and> getAllDescendantTasks chainABCD ''session-d'' = Some []"
proof -
  have nc: "\<not> cyclicBelow chainABCD ''session-a''" by (rule chainABCD_not_cyclic)
  have leaf: "getTasksByParentSession chainABCD ''session-d'' = []"
    by (simp add: getTasksByParentSession_def map_values_def chainABCD_tasks createMockTask_def)
  from getAllDescendantTasks_closure[of chainABCD "''session-a''"] nc
  have "\<exists>ys. getAllDescendantTasks chainABCD ''session-a'' = Some ys
          \<and> set ys = {t. isDescendant chainABCD ''session-a'' t}"
    by blast
  moreover from getAllDescendantTasks_closure[of chainABCD "''session-d''"] leaf
  have "getAllDescendantTasks chainABCD ''session-d'' = Some []"
    by blast
  ultimately show ?thesis using nc leaf chainABCD_descendants by blast
qed

text \<open>
  Claim C8 as stated, for every registry, fails where parent links form a cycle: with two
  tasks that are each other's parent, \<^verbatim>\<open>getAllDescendantTasks\<close> returns no list at all.
\<close>

theorem getAllDescendantTasks_twoCycle_counterexample:
  "getAllDescendantTasks twoCycle ''session-a'' = None"
proof (cases "getAllDescendantTasks twoCycle ''session-a''")
  case None
  then show ?thesis .
next
  case (Some ys)
  with getAllDescendantTasks_acyclic[OF Some] twoCycle_cyclic show ?thesis by simp
qed

text \<open>
  Claim C10, as the code has it. \<^verbatim>\<open>getAllDescendantTasks(s)\<close> returns (a list, hence
  finite) exactly when no descendant of \<open>s\<close> descends from itself. The recursion has no
  guard: on a registry with such a cycle below \<open>s\<close>, a self-parented task included, it
  never returns.
\<close>

theorem getAllDescendantTasks_returns_iff:
  "(\<exists>ys. getAllDescendantTasks m sid = Some ys) \<longleftrightarrow> \<not> cyclicBelow m sid"
proof
  assume "\<exists>ys. getAllDescendantTasks m sid = Some ys"
  then show "\<not> cyclicBelow m sid" using getAllDescendantTasks_acyclic by blast
next
  assume "\<not> cyclicBelow m sid"
  then show "\<exists>ys. getAllDescendantTasks m sid = Some ys"
    unfolding getAllDescendantTasks_def by (rule descendantsOf_terminates)
qed

theorem getAllDescendantTasks_returns_iff_witness:
  "\<not> cyclicBelow chainABCD ''session-b''
   \<and> (\<exists>ys. getAllDescendantTasks chainABCD ''session-b'' = Some ys)
   \<and> cyclicBelow twoCycle ''session-b''
   \<and> getAllDescendantTasks twoCycle ''session-b'' = None"
proof -
  have nc: "\<not> cyclicBelow chainABCD ''session-b''" by (rule chainABCD_not_cyclic)
  have "\<exists>ys. getAllDescendantTasks chainABCD ''session-b'' = Some ys"
    using getAllDescendantTasks_returns_iff[of chainABCD "''session-b''"] nc by simp
  moreover have cyc: "cyclicBelow twoCycle ''session-b''"
  proof -
    let ?b = "createMockTask 0 ''task-b'' ''session-b'' ''session-a''"
    let ?a = "createMockTask 0 ''task-a'' ''session-a'' ''session-b''"
    have a: "isDescendant twoCycle ''session-b'' ?a"
      by (rule isDescendant.direct) (simp_all add: twoCycle_tasks map_values_def createMockTask_def)
    have "isDescendant twoCycle ''session-a'' ?b"
      by (rule isDescendant.direct) (simp_all add: twoCycle_tasks map_values_def createMockTask_def)
    then have "isDescendant twoCycle ''session-a'' ?a"
      by (rule isDescendant.nested) (simp_all add: twoCycle_tasks map_values_def createMockTask_def)
    then have "isDescendant twoCycle (sessionID ?a) ?a"
      by (simp add: createMockTask_def)
    with a show ?thesis unfolding cyclicBelow_def by blast
  qed
  moreover have "getAllDescendantTasks twoCycle ''session-b'' = None"
    using getAllDescendantTasks_returns_iff[of twoCycle "''session-b''"] cyc by simp
  ultimately show ?thesis using nc by blast
qed

text \<open>
  Claim C10 as stated fails on the degenerate input it names: for a task whose
  \<^verbatim>\<open>parentSessionID\<close> is its own \<^verbatim>\<open>sessionID\<close>, the call on that session does not return.
\<close>

theorem getAllDescendantTasks_selfParented_counterexample:
  "getAllDescendantTasks selfParented ''session-a'' = None"
proof (cases "getAllDescendantTasks selfParented ''session-a''")
  case None
  then show ?thesis .
next
  case (Some ys)
  with getAllDescendantTasks_acyclic[OF Some] selfParented_cyclic show ?thesis by simp
qed

section \<open>The retention pruner\<close>

lemma map_delete_middle:
  "k \<notin> fst ` set xs \<Longrightarrow> k \<notin> fst ` set ys \<Longrightarrow> map_delete (xs @ (k, v) # ys) k = xs @ ys"
proof -
  have "filter (\<lambda>e. fst e \<noteq> k) xs = xs" if "k \<notin> fst ` set xs" for xs :: "('a \<times> 'b) list"
    using that by (intro filter_True) force
  then show "k \<notin> fst ` set xs \<Longrightarrow> k \<notin> fst ` set ys \<Longrightarrow> map_delete (xs @ (k, v) # ys) k = xs @ ys"
    by (simp add: map_delete_def)
qed

lemma map_set_middle:
  "k \<notin> fst ` set xs \<Longrightarrow> map_set (xs @ (k, v) # ys) k v' = xs @ (k, v') # ys"
  by (induction xs) auto

lemma filterQueues_append: "filterQueues keep (xs @ ys) = filterQueues keep xs @ filterQueues keep ys"
  by (simp add: filterQueues_def dropEmpty_def)

lemma filterQueues_keys: "fst ` set (filterQueues keep n) \<subseteq> fst ` set n"
  by (force simp: filterQueues_def dropEmpty_def)

lemma filterQueues_Cons:
  "filterQueues keep ((s, q) # n) =
     (if filter keep q = [] then filterQueues keep n else (s, filter keep q) # filterQueues keep n)"
  by (simp add: filterQueues_def dropEmpty_def)

lemma distinct_filterQueues: "distinct (map fst n) \<Longrightarrow> distinct (map fst (filterQueues keep n))"
  unfolding filterQueues_def dropEmpty_def
  by (rule distinct_map_filter) (simp add: comp_def)

lemma clearNotificationsLoop_inv:
  "distinct (map fst (pre @ entries)) \<Longrightarrow>
   clearNotificationsLoop entries k (filterQueues (\<lambda>t. task_id t \<noteq> k) pre @ entries) =
     filterQueues (\<lambda>t. task_id t \<noteq> k) (pre @ entries)"
proof (induction entries arbitrary: pre)
  case Nil
  then show ?case by simp
next
  case (Cons e entries)
  obtain s q where e: "e = (s, q)" by (cases e)
  let ?F = "filterQueues (\<lambda>t. task_id t \<noteq> k)"
  have s1: "s \<notin> fst ` set (?F pre)" using Cons.prems e filterQueues_keys[of _ pre] by auto
  have s2: "s \<notin> fst ` set entries" using Cons.prems e by auto
  have d: "distinct (map fst ((pre @ [e]) @ entries))" using Cons.prems by simp
  have step: "(if length (filter (\<lambda>t. task_id t \<noteq> k) q) = 0
               then map_delete (?F pre @ (s, q) # entries) s
               else map_set (?F pre @ (s, q) # entries) s (filter (\<lambda>t. task_id t \<noteq> k) q))
             = ?F (pre @ [e]) @ entries"
    using s1 s2 by (simp add: map_delete_middle map_set_middle filterQueues_append filterQueues_Cons e
        filterQueues_def[of _ "[]"] dropEmpty_def)
  show ?case
    using Cons.IH[OF d] step by (simp add: e Let_def)
qed

lemma clearNotificationsLoop_eq:
  "distinct (map fst n) \<Longrightarrow> clearNotificationsLoop n k n = filterQueues (\<lambda>t. task_id t \<noteq> k) n"
  using clearNotificationsLoop_inv[of "[]" n k] by (simp add: filterQueues_def dropEmpty_def)

lemma filterQueues_filterQueues:
  "filterQueues p (filterQueues q n) = filterQueues (\<lambda>t. q t \<and> p t) n"
  by (induction n) (auto simp: filterQueues_Cons filterQueues_def[of _ "[]"] dropEmpty_def filter_empty_conv)

lemma staleTaskIds_Cons:
  "staleTaskIds now ((k, t) # entries) =
     (if now - startedAt t > TASK_TTL_MS then k # staleTaskIds now entries else staleTaskIds now entries)"
  by (simp add: staleTaskIds_def)

lemma filter_map_delete:
  "filter (\<lambda>e. fst e \<notin> set S) (map_delete xs k) = filter (\<lambda>e. fst e \<notin> set (k # S)) xs"
  by (induction xs) (auto simp: map_delete_def)

lemma filterQueues_after_clear:
  "(if S = [] then filterQueues (\<lambda>t. task_id t \<noteq> k) n
    else filterQueues (\<lambda>t. task_id t \<notin> set S) (filterQueues (\<lambda>t. task_id t \<noteq> k) n)) =
   filterQueues (\<lambda>t. task_id t \<notin> set (k # S)) n"
proof -
  have "(\<lambda>t. task_id t \<noteq> k \<and> task_id t \<notin> set S) = (\<lambda>t. task_id t \<notin> set (k # S))"
    by auto
  moreover have "S = [] \<Longrightarrow> (\<lambda>t. task_id t \<noteq> k) = (\<lambda>t. task_id t \<notin> set (k # S))"
    by auto
  ultimately show ?thesis by (simp add: filterQueues_filterQueues)
qed

lemma pruneTasksLoop_fresh:
  "\<not> now - startedAt t > TASK_TTL_MS \<Longrightarrow>
   pruneTasksLoop ((k, t) # entries) now m pruned = pruneTasksLoop entries now m pruned"
  by simp

lemma pruneTasksLoop_stale:
  "now - startedAt t > TASK_TTL_MS \<Longrightarrow> distinct (map fst (notifications m)) \<Longrightarrow>
   pruneTasksLoop ((k, t) # entries) now m pruned =
     pruneTasksLoop entries now
       (m\<lparr>notifications := filterQueues (\<lambda>t. task_id t \<noteq> k) (notifications m),
          tasks := map_delete (tasks m) k\<rparr>) (pruned @ [k])"
  by (simp add: Let_def clearNotificationsForTask_def clearNotificationsLoop_eq)

lemma pruneTasksLoop_eq:
  "distinct (map fst (notifications m)) \<Longrightarrow>
   pruneTasksLoop entries now m pruned =
     (m\<lparr>tasks := filter (\<lambda>e. fst e \<notin> set (staleTaskIds now entries)) (tasks m),
        notifications :=
          (if staleTaskIds now entries = [] then notifications m
           else filterQueues (\<lambda>t. task_id t \<notin> set (staleTaskIds now entries)) (notifications m))\<rparr>,
      pruned @ staleTaskIds now entries)"
proof (induction entries arbitrary: m pruned)
  case Nil
  then show ?case by (simp add: staleTaskIds_def)
next
  case (Cons e entries)
  obtain k t where e: "e = (k, t)" by (cases e)
  show ?case
  proof (cases "now - startedAt t > TASK_TTL_MS")
    case False
    have ids: "staleTaskIds now (e # entries) = staleTaskIds now entries"
      using False by (simp add: e staleTaskIds_Cons)
    show ?thesis
      unfolding ids unfolding e pruneTasksLoop_fresh[OF False] by (rule Cons.IH[OF Cons.prems])
  next
    case True
    let ?S = "staleTaskIds now entries"
    let ?m2 = "m\<lparr>notifications := filterQueues (\<lambda>t. task_id t \<noteq> k) (notifications m),
                  tasks := map_delete (tasks m) k\<rparr>"
    have ids: "staleTaskIds now (e # entries) = k # ?S"
      using True by (simp add: e staleTaskIds_Cons)
    have d2: "distinct (map fst (notifications ?m2))"
      using Cons.prems by (simp add: distinct_filterQueues)
    have t2: "tasks ?m2 = map_delete (tasks m) k" by simp
    have n2: "notifications ?m2 = filterQueues (\<lambda>t. task_id t \<noteq> k) (notifications m)" by simp
    have upd: "?m2\<lparr>tasks := A, notifications := B\<rparr> = m\<lparr>tasks := A, notifications := B\<rparr>" for A B
      by simp
    have "pruneTasksLoop (e # entries) now m pruned = pruneTasksLoop entries now ?m2 (pruned @ [k])"
      unfolding e by (rule pruneTasksLoop_stale[OF True Cons.prems])
    also have "\<dots> =
      (?m2\<lparr>tasks := filter (\<lambda>e. fst e \<notin> set ?S) (tasks ?m2),
           notifications :=
             (if ?S = [] then notifications ?m2
              else filterQueues (\<lambda>t. task_id t \<notin> set ?S) (notifications ?m2))\<rparr>,
       (pruned @ [k]) @ ?S)"
      by (rule Cons.IH[OF d2])
    also have "\<dots> =
      (m\<lparr>tasks := filter (\<lambda>e. fst e \<notin> set (k # ?S)) (tasks m),
         notifications := filterQueues (\<lambda>t. task_id t \<notin> set (k # ?S)) (notifications m)\<rparr>,
       pruned @ k # ?S)"
      unfolding t2 n2 filter_map_delete filterQueues_after_clear upd by simp
    finally show ?thesis unfolding ids by simp
  qed
qed

lemma length_filter_eq_id: "length (filter P xs) = length xs \<Longrightarrow> filter P xs = xs"
  by (metis filter_True length_filter_less less_irrefl)

lemma filter_compl_Nil: "filter P xs = xs \<Longrightarrow> filter (\<lambda>x. \<not> P x) xs = []"
  by (simp add: filter_id_conv filter_empty_conv)

lemma length_removed:
  "int (length q) - int (length (filter P q)) = int (length (filter (\<lambda>t. \<not> P t) q))"
  using sum_length_filter_compl[of P q] by simp

lemma filterQueues_snoc:
  "filterQueues keep (pre @ [(s, q)]) =
     filterQueues keep pre @ (if filter keep q = [] then [] else [(s, filter keep q)])"
  by (simp add: filterQueues_append filterQueues_Cons filterQueues_def[of _ "[]"] dropEmpty_def)

lemma pruneNotificationsLoop_step:
  assumes s1: "s \<notin> fst ` set (filterQueues (\<lambda>t. now - startedAt t \<le> TASK_TTL_MS) pre)"
    and s2: "s \<notin> fst ` set entries"
  shows "pruneNotificationsLoop ((s, q) # entries) now
           (filterQueues (\<lambda>t. now - startedAt t \<le> TASK_TTL_MS) pre @ (s, q) # entries) c =
         pruneNotificationsLoop entries now
           (filterQueues (\<lambda>t. now - startedAt t \<le> TASK_TTL_MS) (pre @ [(s, q)]) @ entries)
           (c + int (length (filter (\<lambda>t. \<not> now - startedAt t \<le> TASK_TTL_MS) q)))"
proof (cases "q = []")
  case True
  then show ?thesis
    by (simp add: filterQueues_snoc map_delete_middle[OF s1 s2])
next
  case qne: False
  show ?thesis
  proof (cases "filter (\<lambda>t. now - startedAt t \<le> TASK_TTL_MS) q = []")
    case True
    have "int (length (filter (\<lambda>t. \<not> now - startedAt t \<le> TASK_TTL_MS) q)) = int (length q)"
      using length_removed[of q "\<lambda>t. now - startedAt t \<le> TASK_TTL_MS"] True by simp
    then show ?thesis using qne True
      by (simp add: filterQueues_snoc map_delete_middle[OF s1 s2] Let_def)
  next
    case fne: False
    show ?thesis
    proof (cases "length (filter (\<lambda>t. now - startedAt t \<le> TASK_TTL_MS) q) = length q")
      case True
      then have same: "filter (\<lambda>t. now - startedAt t \<le> TASK_TTL_MS) q = q"
        by (rule length_filter_eq_id)
      have none: "filter (\<lambda>t. \<not> now - startedAt t \<le> TASK_TTL_MS) q = []"
        using same by (rule filter_compl_Nil)
      show ?thesis using qne
        by (simp add: filterQueues_snoc same none Let_def)
    next
      case False
      then show ?thesis using qne fne
        by (simp add: filterQueues_snoc map_set_middle[OF s1] length_removed Let_def)
    qed
  qed
qed

lemma pruneNotificationsLoop_inv:
  "distinct (map fst (pre @ entries)) \<Longrightarrow>
   pruneNotificationsLoop entries now
       (filterQueues (\<lambda>t. now - startedAt t \<le> TASK_TTL_MS) pre @ entries) c =
     (filterQueues (\<lambda>t. now - startedAt t \<le> TASK_TTL_MS) (pre @ entries),
      c + countInQueues (\<lambda>t. \<not> now - startedAt t \<le> TASK_TTL_MS) entries)"
proof (induction entries arbitrary: pre c)
  case Nil
  then show ?case by (simp add: countInQueues_def)
next
  case (Cons e entries)
  obtain s q where e: "e = (s, q)" by (cases e)
  let ?F = "filterQueues (\<lambda>t. now - startedAt t \<le> TASK_TTL_MS)"
  have s1: "s \<notin> fst ` set (?F pre)" using Cons.prems e filterQueues_keys[of _ pre] by auto
  have s2: "s \<notin> fst ` set entries" using Cons.prems e by auto
  have d: "distinct (map fst ((pre @ [(s, q)]) @ entries))" using Cons.prems e by simp
  have cnt: "countInQueues (\<lambda>t. \<not> now - startedAt t \<le> TASK_TTL_MS) ((s, q) # entries) =
             int (length (filter (\<lambda>t. \<not> now - startedAt t \<le> TASK_TTL_MS) q))
             + countInQueues (\<lambda>t. \<not> now - startedAt t \<le> TASK_TTL_MS) entries"
    by (simp add: countInQueues_def)
  show ?case
    unfolding e pruneNotificationsLoop_step[OF s1 s2] Cons.IH[OF d] cnt by simp
qed

lemma pruneNotificationsLoop_eq:
  "distinct (map fst n) \<Longrightarrow>
   pruneNotificationsLoop n now n 0 =
     (filterQueues (\<lambda>t. now - startedAt t \<le> TASK_TTL_MS) n,
      countInQueues (\<lambda>t. \<not> now - startedAt t \<le> TASK_TTL_MS) n)"
  using pruneNotificationsLoop_inv[of "[]" n now 0] by (simp add: filterQueues_def dropEmpty_def)

lemma countInQueues_filterQueues:
  "countInQueues p (filterQueues g n) = countInQueues (\<lambda>t. g t \<and> p t) n"
  by (induction n) (auto simp: filterQueues_Cons filterQueues_def[of _ "[]"] dropEmpty_def
      countInQueues_def filter_empty_conv)

lemma staleTaskIds_member:
  assumes d: "distinct (map fst T)" and e: "e \<in> set T"
  shows "fst e \<in> set (staleTaskIds now T) \<longleftrightarrow> now - startedAt (snd e) > TASK_TTL_MS"
proof
  assume "fst e \<in> set (staleTaskIds now T)"
  then obtain e' where e': "e' \<in> set T" "now - startedAt (snd e') > TASK_TTL_MS" "fst e' = fst e"
    by (auto simp: staleTaskIds_def)
  have "snd e' = snd e"
    using eq_key_imp_eq_value[OF d, of "fst e" "snd e'" "snd e"] e e'(1,3)
    by (metis prod.collapse)
  with e'(2) show "now - startedAt (snd e) > TASK_TTL_MS" by simp
next
  assume "now - startedAt (snd e) > TASK_TTL_MS"
  with e show "fst e \<in> set (staleTaskIds now T)" by (force simp: staleTaskIds_def)
qed

lemma filter_not_staleTaskIds:
  assumes d: "distinct (map fst T)"
  shows "filter (\<lambda>e. fst e \<notin> set (staleTaskIds now T)) T =
         filter (\<lambda>e. now - startedAt (snd e) \<le> TASK_TTL_MS) T"
  by (rule filter_cong[OF refl]) (simp add: staleTaskIds_member[OF d] not_less)

text \<open>
  Claim C9, as the code has it. On a registry and notification queues held in maps (keys
  distinct), \<^verbatim>\<open>pruneStaleTasksAndNotifications\<close> at time \<open>now\<close> removes exactly the tasks
  whose \<open>now - startedAt\<close> exceeds \<^verbatim>\<open>TASK_TTL_MS\<close>, whatever their status, and keeps the
  others unchanged and in order; from every queue it removes the entries that carry a
  pruned task's id and the entries older than the window, keeps the others unchanged, and
  drops the queues left empty. The result lists the pruned task ids; its
  \<^verbatim>\<open>prunedNotifications\<close> counts the entries removed for their own age that do not carry
  a pruned task's id: entries removed together with their pruned task are not counted.
\<close>

theorem pruneStaleTasksAndNotifications_effect:
  assumes "distinct (map fst (tasks m))" and "distinct (map fst (notifications m))"
  shows "pruneStaleTasksAndNotifications m now =
     (m\<lparr>tasks := filter (\<lambda>e. now - startedAt (snd e) \<le> TASK_TTL_MS) (tasks m),
        notifications :=
          filterQueues (\<lambda>t. task_id t \<notin> set (staleTaskIds now (tasks m)) \<and>
                            now - startedAt t \<le> TASK_TTL_MS) (notifications m)\<rparr>,
      \<lparr>prunedTasks = staleTaskIds now (tasks m),
       prunedNotifications =
         countInQueues (\<lambda>t. task_id t \<notin> set (staleTaskIds now (tasks m)) \<and>
                             now - startedAt t > TASK_TTL_MS) (notifications m)\<rparr>)"
proof -
  let ?S = "staleTaskIds now (tasks m)"
  let ?fresh = "\<lambda>t. now - startedAt t \<le> TASK_TTL_MS"
  let ?N1 = "if ?S = [] then notifications m
             else filterQueues (\<lambda>t. task_id t \<notin> set ?S) (notifications m)"
  let ?m1 = "m\<lparr>tasks := filter (\<lambda>e. fst e \<notin> set ?S) (tasks m), notifications := ?N1\<rparr>"
  have loop1: "pruneTasksLoop (tasks m) now m [] = (?m1, ?S)"
    using pruneTasksLoop_eq[OF assms(2), of "tasks m" now "[]"] by simp
  have d1: "distinct (map fst ?N1)"
    using assms(2) by (simp add: distinct_filterQueues)
  have loop2: "pruneNotificationsLoop ?N1 now ?N1 0 =
                 (filterQueues ?fresh ?N1, countInQueues (\<lambda>t. \<not> ?fresh t) ?N1)"
    by (rule pruneNotificationsLoop_eq[OF d1])
  have triv: "(\<lambda>t. task_id t \<notin> set ?S \<and> P t) = P" if "?S = []" for P
    using that by simp
  have n: "filterQueues ?fresh ?N1 =
           filterQueues (\<lambda>t. task_id t \<notin> set ?S \<and> ?fresh t) (notifications m)"
    by (cases "?S = []") (simp_all add: filterQueues_filterQueues)
  have c: "countInQueues (\<lambda>t. \<not> ?fresh t) ?N1 =
           countInQueues (\<lambda>t. task_id t \<notin> set ?S \<and> now - startedAt t > TASK_TTL_MS) (notifications m)"
    by (cases "?S = []") (simp_all add: countInQueues_filterQueues not_le)
  have "pruneStaleTasksAndNotifications m now =
          (?m1\<lparr>notifications := filterQueues ?fresh ?N1\<rparr>,
           \<lparr>prunedTasks = ?S, prunedNotifications = countInQueues (\<lambda>t. \<not> ?fresh t) ?N1\<rparr>)"
    unfolding pruneStaleTasksAndNotifications_def loop1 prod.case
    using loop2 by simp
  then show ?thesis
    unfolding n c filter_not_staleTaskIds[OF assms(1)] by simp
qed

lemma pruneExample_state:
  "pruneExample =
     \<lparr>tasks = [(''task-stale'', createMockTask 0 ''task-stale'' ''session-stale'' ''session-parent''),
               (''task-fresh'', createMockTask 1800000 ''task-fresh'' ''session-fresh'' ''session-parent'')],
      notifications =
        [(''session-parent'',
            [createMockTask 0 ''task-stale'' ''session-stale'' ''session-parent'',
             createMockTask 1800000 ''task-fresh'' ''session-fresh'' ''session-parent'']),
         (''session-other'', [createMockTask 0 ''task-gone'' ''session-gone'' ''session-other''])],
      resumeCalls = []\<rparr>"
  by (simp add: pruneExample_def markForNotification_def addTask_def emptyManager_def
      createMockTask_def)

text \<open>
  The example: the old task and its notification go, the fresh task and its notification
  stay, the old notification of the absent task goes and is the one that is counted.
\<close>

theorem pruneStaleTasksAndNotifications_effect_witness:
  "distinct (map fst (tasks pruneExample)) \<and> distinct (map fst (notifications pruneExample))
   \<and> pruneStaleTasksAndNotifications pruneExample 1860000 =
       (\<lparr>tasks = [(''task-fresh'', createMockTask 1800000 ''task-fresh'' ''session-fresh'' ''session-parent'')],
         notifications =
           [(''session-parent'',
              [createMockTask 1800000 ''task-fresh'' ''session-fresh'' ''session-parent''])],
         resumeCalls = []\<rparr>,
        \<lparr>prunedTasks = [''task-stale''], prunedNotifications = 1\<rparr>)"
proof -
  have d1: "distinct (map fst (tasks pruneExample))" by (simp add: pruneExample_state)
  have d2: "distinct (map fst (notifications pruneExample))" by (simp add: pruneExample_state)
  show ?thesis
    using d1 d2 pruneStaleTasksAndNotifications_effect[OF d1 d2, of 1860000]
    by (simp add: pruneExample_state staleTaskIds_def filterQueues_def dropEmpty_def
        countInQueues_def TASK_TTL_MS_def createMockTask_def)
qed

text \<open>
  Claim C9 as stated, with the result reporting the count of pruned notifications, fails
  where a notification goes with its pruned task: one notification is removed and the
  reported count is 0.
\<close>

theorem pruneStaleTasksAndNotifications_count_counterexample:
  "getNotificationCount pruneTiedOnly = 1
   \<and> getNotificationCount (fst (pruneStaleTasksAndNotifications pruneTiedOnly 1860000)) = 0
   \<and> prunedNotifications (snd (pruneStaleTasksAndNotifications pruneTiedOnly 1860000)) = 0"
  by (simp add: pruneTiedOnly_def markForNotification_def addTask_def emptyManager_def
      createMockTask_def getNotificationCount_def pruneStaleTasksAndNotifications_def
      clearNotificationsForTask_def map_delete_def TASK_TTL_MS_def Let_def)

section \<open>\<^verbatim>\<open>resume\<close> of the mock manager\<close>

lemma findBySession_None_iff:
  "findBySession m sid = None \<longleftrightarrow> \<not> (\<exists>t \<in> set (map_values (tasks m)). sessionID t = sid)"
  by (auto simp: findBySession_def find_None_iff)

lemma findBySession_updateBySession:
  "find (\<lambda>t. sessionID t = sid) (map snd T) = Some t \<Longrightarrow> sessionID t' = sid \<Longrightarrow>
   find (\<lambda>t. sessionID t = sid) (map snd (updateBySession T sid t')) = Some t'"
  by (induction T) (auto split: if_splits)

text \<open>
  Claim C5. \<^verbatim>\<open>resume\<close> fails exactly when the registry has no task of the execution
  session \<^verbatim>\<open>input.sessionId\<close>, and then with the error whose message is
  \<^verbatim>\<open>Task not found for session: \<close> followed by that session id. When the task of the
  session (the one \<^verbatim>\<open>findBySession\<close> finds) is running, \<^verbatim>\<open>resume\<close> returns it as it is
  and leaves the manager as it is: parent context unchanged, no entry added to
  \<^verbatim>\<open>resumeCalls\<close>, the new prompt and parent context discarded.
\<close>

theorem resume_not_found_or_running:
  "((\<exists>e. resume m now input = Inl e) \<longleftrightarrow>
      \<not> (\<exists>t \<in> set (map_values (tasks m)). sessionID t = sessionId input))
   \<and> (\<not> (\<exists>t \<in> set (map_values (tasks m)). sessionID t = sessionId input) \<longrightarrow>
        resume m now input = Inl (Error (''Task not found for session: '' @ sessionId input)))
   \<and> (\<forall>t. findBySession m (sessionId input) = Some t \<and> status t = Running \<longrightarrow>
        resume m now input = Inr (t, m))"
proof (intro conjI allI impI)
  show "(\<exists>e. resume m now input = Inl e) \<longleftrightarrow>
      \<not> (\<exists>t \<in> set (map_values (tasks m)). sessionID t = sessionId input)"
    unfolding findBySession_None_iff[symmetric]
    by (auto simp: resume_def Let_def split: option.splits)
next
  assume "\<not> (\<exists>t \<in> set (map_values (tasks m)). sessionID t = sessionId input)"
  then have "findBySession m (sessionId input) = None" by (simp add: findBySession_None_iff)
  then show "resume m now input = Inl (Error (''Task not found for session: '' @ sessionId input))"
    by (simp add: resume_def)
next
  fix t assume "findBySession m (sessionId input) = Some t \<and> status t = Running"
  then show "resume m now input = Inr (t, m)" by (simp add: resume_def)
qed

text \<open>The two tests: the unknown session, and the running task whose parent stays.\<close>

theorem resume_not_found_or_running_witness:
  "resume emptyManager 5 resumeNonExistent = Inl (Error ''Task not found for session: non-existent'')
   \<and> findBySession runningRegistry ''session-a'' =
        Some (createMockTask 0 ''task-a'' ''session-a'' ''session-parent'')
   \<and> status (createMockTask 0 ''task-a'' ''session-a'' ''session-parent'') = Running
   \<and> resume runningRegistry 5 resumeIgnored =
        Inr (createMockTask 0 ''task-a'' ''session-a'' ''session-parent'', runningRegistry)
   \<and> parentSessionID (createMockTask 0 ''task-a'' ''session-a'' ''session-parent'') = ''session-parent''
   \<and> resumeCalls runningRegistry = []"
proof -
  have none: "\<not> (\<exists>t \<in> set (map_values (tasks emptyManager)). sessionID t = sessionId resumeNonExistent)"
    by (simp add: emptyManager_def map_values_def)
  have found: "findBySession runningRegistry (sessionId resumeIgnored) =
        Some (createMockTask 0 ''task-a'' ''session-a'' ''session-parent'')"
    by (simp add: findBySession_def runningRegistry_def addTask_def emptyManager_def map_values_def
        createMockTask_def resumeIgnored_def)
  have run: "status (createMockTask 0 ''task-a'' ''session-a'' ''session-parent'') = Running"
    by (simp add: createMockTask_def)
  from resume_not_found_or_running[of emptyManager 5 resumeNonExistent] none
  have "resume emptyManager 5 resumeNonExistent =
          Inl (Error (''Task not found for session: '' @ sessionId resumeNonExistent))"
    by blast
  moreover from resume_not_found_or_running[of runningRegistry 5 resumeIgnored] found run
  have "resume runningRegistry 5 resumeIgnored =
        Inr (createMockTask 0 ''task-a'' ''session-a'' ''session-parent'', runningRegistry)"
    by blast
  ultimately show ?thesis
    using found run
    by (simp add: resumeNonExistent_def resumeIgnored_def createMockTask_def runningRegistry_def
        addTask_def emptyManager_def)
qed

lemma resume_terminal:
  assumes "findBySession m (sessionId input) = Some t" and "status t \<noteq> Running"
  shows "\<exists>r m'. resume m now input = Inr (r, m')
     \<and> status r = Running \<and> completedAt r = None \<and> error r = None
     \<and> parentSessionID r = input_parentSessionID input
     \<and> parentMessageID r = input_parentMessageID input
     \<and> parentModel r = input_parentModel input
     \<and> task_id r = task_id t \<and> sessionID r = sessionID t
     \<and> description r = description t \<and> agent r = agent t
     \<and> map_option toolCalls (progress r) =
         Some (case progress t of None \<Rightarrow> 0 | Some p \<Rightarrow> toolCalls p)
     \<and> concurrencyKey r = concurrencyKey t
     \<and> findBySession m' (sessionId input) = Some r
     \<and> map fst (tasks m') = map fst (tasks m)
     \<and> resumeCalls m' = resumeCalls m @ [(sessionId input, input_prompt input)]"
proof -
  have sid: "sessionID t = sessionId input"
    using assms(1) by (auto simp: findBySession_def dest: find_Some_iff[THEN iffD1])
  have keys: "map fst (updateBySession T s t') = map fst T" for T s t'
    by (induction T) auto
  show ?thesis
    using assms sid
    by (simp add: resume_def Let_def findBySession_def map_values_def findBySession_updateBySession keys)
qed

section \<open>The body of the completion notification\<close>

text \<open>
  Claim C7, as the code has it. The agent and the model of the body are resolved
  independently of each other. The agent is the live message's agent when it has one,
  otherwise the task's stored \<^verbatim>\<open>parentAgent\<close>, and the key is absent when there is
  neither. The model is the live message's model when both its \<^verbatim>\<open>providerID\<close> and its
  \<^verbatim>\<open>modelID\<close> are present and not empty, and the key is absent otherwise: a model in the
  body always has both parts.
\<close>

theorem buildNotificationPromptBody_resolution:
  "body_agent (buildNotificationPromptBody task currentMessage) =
     (case liveAgent currentMessage of Some a \<Rightarrow> Some a | None \<Rightarrow> parentAgent task)
   \<and> body_model (buildNotificationPromptBody task currentMessage) = liveFullModel currentMessage
   \<and> (\<forall>mo. body_model (buildNotificationPromptBody task currentMessage) = Some mo \<longrightarrow>
          providerID mo \<noteq> [] \<and> modelID mo \<noteq> [])
   \<and> (liveAgent currentMessage = None \<and> parentAgent task = None \<longrightarrow>
          body_agent (buildNotificationPromptBody task currentMessage) = None)
   \<and> (liveFullModel currentMessage = None \<longrightarrow>
          body_model (buildNotificationPromptBody task currentMessage) = None)"
  by (auto simp: buildNotificationPromptBody_def liveAgent_def liveFullModel_def truthy_def Let_def
      split: option.splits)

text \<open>
  The tests: a full live model is passed with the live agent; an incomplete one is left
  out; without a live message the stored agent is used; with neither agent there is none.
\<close>

theorem buildNotificationPromptBody_resolution_witness:
  "body_agent (buildNotificationPromptBody completedTask3 (Some completeMessage)) = Some ''Sisyphus''
   \<and> body_model (buildNotificationPromptBody completedTask3 (Some completeMessage)) =
        Some \<lparr>providerID = ''anthropic'', modelID = ''claude-opus-4-5''\<rparr>
   \<and> liveFullModel (Some incompleteMessage) = None
   \<and> body_model (buildNotificationPromptBody completedTask3 (Some incompleteMessage)) = None
   \<and> body_agent (buildNotificationPromptBody completedTask3 None) = Some ''FallbackAgent''
   \<and> body_model (buildNotificationPromptBody completedTask3 None) = None
   \<and> liveAgent None = None \<and> parentAgent (completedTask3\<lparr>parentAgent := None\<rparr>) = None
   \<and> body_agent (buildNotificationPromptBody (completedTask3\<lparr>parentAgent := None\<rparr>) None) = None"
  using buildNotificationPromptBody_resolution[of completedTask3 "Some completeMessage"]
    buildNotificationPromptBody_resolution[of completedTask3 "Some incompleteMessage"]
    buildNotificationPromptBody_resolution[of completedTask3 None]
    buildNotificationPromptBody_resolution[of "completedTask3\<lparr>parentAgent := None\<rparr>" None]
  by (simp add: liveAgent_def liveFullModel_def completeMessage_def incompleteMessage_def
      completedTask3_def createMockTask_def)

text \<open>
  Claim C7 as stated has the body fall back to the stored \<^verbatim>\<open>parentAgent\<close> whenever the
  live model is not fully specified. With a live agent and a live model that lacks its
  \<^verbatim>\<open>modelID\<close>, the body carries the live agent, not the stored one.
\<close>

theorem buildNotificationPromptBody_agent_counterexample:
  "truthy (Option.bind (cm_model incompleteMessage) cm_modelID) = False
   \<and> parentAgent completedTask3 = Some ''FallbackAgent''
   \<and> body_agent (buildNotificationPromptBody completedTask3 (Some incompleteMessage)) = Some ''Sisyphus''"
  by (simp add: buildNotificationPromptBody_def incompleteMessage_def completedTask3_def
      createMockTask_def truthy_def Let_def)

section \<open>The admission gate\<close>

lemma acquire_full:
  "getConcurrencyLimit g key \<le> getCount g key \<Longrightarrow>
     acquire g key caller = (g\<lparr>queues := (queues g)(key := queues g key @ [caller])\<rparr>, Suspended)"
  by (simp add: acquire_def getCount_def)

lemma acquire_free:
  "getCount g key < getConcurrencyLimit g key \<Longrightarrow>
     acquire g key caller = (g\<lparr>counts := (counts g)(key := counts g key + 1)\<rparr>, Granted)"
  by (simp add: acquire_def getCount_def)

lemma release_handover:
  "0 < getCount g key \<Longrightarrow> queues g key = waiter # rest \<Longrightarrow>
     release g key = (g\<lparr>queues := (queues g)(key := rest)\<rparr>, Some waiter)"
  by (simp add: release_def getCount_def)

lemma release_free:
  "0 < getCount g key \<Longrightarrow> queues g key = [] \<Longrightarrow>
     release g key = (g\<lparr>counts := (counts g)(key := counts g key - 1)\<rparr>, None)"
  by (simp add: release_def getCount_def)

lemma release_none_held:
  "getCount g key \<le> 0 \<Longrightarrow> release g key = (g, None)"
  by (simp add: release_def getCount_def)

lemma gate_step_count_nonneg:
  "0 \<le> getCount g key \<Longrightarrow> 0 \<le> getCount (gate_step g c) key"
  by (cases c) (auto simp: acquire_def release_def getCount_def split: list.splits)

lemma gate_run_count_nonneg:
  "0 \<le> getCount g key \<Longrightarrow> 0 \<le> getCount (gate_run g calls) key"
  by (induction calls arbitrary: g) (simp_all add: gate_step_count_nonneg)

lemma acquire_limit [simp]:
  "getConcurrencyLimit (fst (acquire g k caller)) key = getConcurrencyLimit g key"
  by (simp add: acquire_def getConcurrencyLimit_def split: option.splits)

lemma release_limit [simp]:
  "getConcurrencyLimit (fst (release g k)) key = getConcurrencyLimit g key"
  by (simp add: release_def getConcurrencyLimit_def split: list.splits option.splits)

lemma gate_step_limit [simp]:
  "getConcurrencyLimit (gate_step g c) key = getConcurrencyLimit g key"
  by (cases c) simp_all

lemma gate_run_limit [simp]:
  "getConcurrencyLimit (gate_run g calls) key = getConcurrencyLimit g key"
  by (induction calls arbitrary: g) simp_all

lemma gate_step_count_bounded:
  "getCount g key \<le> getConcurrencyLimit g key \<Longrightarrow>
     getCount (gate_step g c) key \<le> getConcurrencyLimit g key"
  by (cases c) (auto simp: acquire_def release_def getCount_def getConcurrencyLimit_def split: list.splits)

lemma gate_run_count_bounded:
  "getCount g key \<le> getConcurrencyLimit g key \<Longrightarrow>
     getCount (gate_run g calls) key \<le> getConcurrencyLimit g key"
proof (induction calls arbitrary: g)
  case Nil
  then show ?case by simp
next
  case (Cons c calls)
  have "getCount (gate_step g c) key \<le> getConcurrencyLimit (gate_step g c) key"
    using gate_step_count_bounded[OF Cons.prems] by simp
  from Cons.IH[OF this] show ?case by simp
qed

lemma gate_fifo:
  "queues g key @ suspendedOn key g calls = resolvedOn key g calls @ queues (gate_run g calls) key"
proof (induction calls arbitrary: g)
  case Nil
  then show ?case by simp
next
  case (Cons c calls)
  show ?case
  proof (cases c)
    case (Acquire k caller)
    have "queues (gate_step g c) key =
            queues g key @ (if k = key \<and> snd (acquire g k caller) = Suspended then [caller] else [])"
      by (auto simp: Acquire acquire_def)
    then show ?thesis using Cons.IH[of "gate_step g c"] by (simp add: Acquire)
  next
    case (Release k)
    have "queues g key =
            (if k = key then (case snd (release g k) of None \<Rightarrow> [] | Some waiter \<Rightarrow> [waiter]) else [])
            @ queues (gate_step g c) key"
      by (auto simp: Release release_def split: list.splits)
    then show ?thesis using Cons.IH[of "gate_step g c"] by (simp add: Release)
  qed
qed

lemma acquire_many:
  "getCount g key + int (length callers) \<le> getConcurrencyLimit g key \<Longrightarrow>
     getCount (gate_run g (map (Acquire key) callers)) key = getCount g key + int (length callers)
     \<and> suspendedOn key g (map (Acquire key) callers) = []
     \<and> queues (gate_run g (map (Acquire key) callers)) key = queues g key"
proof (induction callers arbitrary: g)
  case Nil
  then show ?case by simp
next
  case (Cons c callers)
  have free: "getCount g key < getConcurrencyLimit g key" using Cons.prems by simp
  let ?g = "gate_step g (Acquire key c)"
  have st: "getCount ?g key = getCount g key + 1" "queues ?g key = queues g key"
    "snd (acquire g key c) = Granted"
    using free by (simp_all add: acquire_free getCount_def)
  have "getCount ?g key + int (length callers) \<le> getConcurrencyLimit ?g key"
    using Cons.prems st by simp
  from Cons.IH[OF this] show ?case using st by simp
qed

text \<open>
  Claim C4, on the gate as the specification describes it. While the slots of a key are
  all held, a further \<^verbatim>\<open>acquire\<close> does not resolve: the caller is queued last. On a new
  gate whose capacity for the key is \<open>n\<close>, \<open>n\<close> calls of \<^verbatim>\<open>acquire\<close> are all granted and
  the next one is suspended. A \<^verbatim>\<open>release\<close> with a slot held and callers waiting hands the
  slot to the earliest of them, and over any sequence of calls the waiters of a key are
  resolved in the order in which they were suspended. A \<^verbatim>\<open>release\<close> with no slot held
  changes nothing, and the held count is never negative after any sequence of calls on a
  new gate.
\<close>

theorem gate_discipline:
  "(getConcurrencyLimit g key \<le> getCount g key \<longrightarrow>
      acquire g key caller = (g\<lparr>queues := (queues g)(key := queues g key @ [caller])\<rparr>, Suspended))
   \<and> (getConcurrencyLimit (newConcurrencyManager caps dflt) key = int (length callers) \<longrightarrow>
        getCount (gate_run (newConcurrencyManager caps dflt) (map (Acquire key) callers)) key
          = int (length callers)
        \<and> suspendedOn key (newConcurrencyManager caps dflt) (map (Acquire key) callers) = []
        \<and> snd (acquire (gate_run (newConcurrencyManager caps dflt) (map (Acquire key) callers))
                 key caller) = Suspended)
   \<and> (0 < getCount g key \<and> queues g key = waiter # rest \<longrightarrow>
        release g key = (g\<lparr>queues := (queues g)(key := rest)\<rparr>, Some waiter))
   \<and> queues g key @ suspendedOn key g calls = resolvedOn key g calls @ queues (gate_run g calls) key
   \<and> (getCount g key = 0 \<longrightarrow> release g key = (g, None))
   \<and> 0 \<le> getCount (gate_run (newConcurrencyManager caps dflt) calls) key"
proof (intro conjI impI)
  assume "getConcurrencyLimit g key \<le> getCount g key"
  then show "acquire g key caller =
      (g\<lparr>queues := (queues g)(key := queues g key @ [caller])\<rparr>, Suspended)"
    by (rule acquire_full)
next
  let ?g0 = "newConcurrencyManager caps dflt"
  let ?gn = "gate_run ?g0 (map (Acquire key) callers)"
  assume lim: "getConcurrencyLimit ?g0 key = int (length callers)"
  have zero: "getCount ?g0 key = 0" by (simp add: newConcurrencyManager_def getCount_def)
  have many: "getCount ?gn key = getCount ?g0 key + int (length callers)
     \<and> suspendedOn key ?g0 (map (Acquire key) callers) = []
     \<and> queues ?gn key = queues ?g0 key"
    by (rule acquire_many) (simp add: zero lim)
  show "getCount ?gn key = int (length callers)" using many zero by simp
  show "suspendedOn key ?g0 (map (Acquire key) callers) = []" using many by simp
  have "getConcurrencyLimit ?gn key = int (length callers)"
    using lim by simp
  then have "getConcurrencyLimit ?gn key \<le> getCount ?gn key" using many zero by simp
  then show "snd (acquire ?gn key caller) = Suspended" by (simp add: acquire_full)
next
  assume "0 < getCount g key \<and> queues g key = waiter # rest"
  then show "release g key = (g\<lparr>queues := (queues g)(key := rest)\<rparr>, Some waiter)"
    by (simp add: release_handover)
next
  show "queues g key @ suspendedOn key g calls = resolvedOn key g calls @ queues (gate_run g calls) key"
    by (rule gate_fifo)
next
  assume "getCount g key = 0"
  then show "release g key = (g, None)" by (simp add: release_none_held)
next
  have "0 \<le> getCount (newConcurrencyManager caps dflt) key"
    by (simp add: newConcurrencyManager_def getCount_def)
  then show "0 \<le> getCount (gate_run (newConcurrencyManager caps dflt) calls) key"
    by (rule gate_run_count_nonneg)
qed

lemma exploreGateHeld_state:
  "exploreGateHeld =
     \<lparr>capacities = (\<lambda>key. None), defaultConcurrency = 1,
      counts = (\<lambda>key. 0)(''explore'' := 1), queues = (\<lambda>key. [])\<rparr>"
  by (simp add: exploreGateHeld_def exploreGate_def newConcurrencyManager_def acquire_def
      getConcurrencyLimit_def)

lemma exploreGateWaiting_state:
  "exploreGateWaiting =
     \<lparr>capacities = (\<lambda>key. None), defaultConcurrency = 1,
      counts = (\<lambda>key. 0)(''explore'' := 1), queues = (\<lambda>key. [])(''explore'' := [2])\<rparr>"
  by (simp add: exploreGateWaiting_def exploreGateHeld_state acquire_def getConcurrencyLimit_def)

text \<open>
  The test: with capacity 1 and the slot held, the second \<^verbatim>\<open>acquire\<close> is suspended; the
  release resolves it and the count stays 1; a release on the new gate changes nothing.
\<close>

theorem gate_discipline_witness:
  "getConcurrencyLimit exploreGateHeld ''explore'' \<le> getCount exploreGateHeld ''explore''
   \<and> snd (acquire exploreGateHeld ''explore'' 2) = Suspended
   \<and> getConcurrencyLimit (newConcurrencyManager (\<lambda>key. None) 1) ''explore'' = int (length [1::nat])
   \<and> snd (acquire (gate_run (newConcurrencyManager (\<lambda>key. None) 1) (map (Acquire ''explore'') [1]))
            ''explore'' 2) = Suspended
   \<and> 0 < getCount exploreGateWaiting ''explore''
   \<and> queues exploreGateWaiting ''explore'' = [2]
   \<and> snd (release exploreGateWaiting ''explore'') = Some 2
   \<and> getCount (fst (release exploreGateWaiting ''explore'')) ''explore'' = 1
   \<and> queues (fst (release exploreGateWaiting ''explore'')) ''explore'' = []
   \<and> getCount exploreGate ''explore'' = 0
   \<and> release exploreGate ''explore'' = (exploreGate, None)
   \<and> 0 \<le> getCount (gate_run (newConcurrencyManager (\<lambda>key. None) 1)
                        [Release ''explore'', Acquire ''explore'' 1, Release ''explore'',
                         Release ''explore'']) ''explore''"
proof -
  have full: "getConcurrencyLimit exploreGateHeld ''explore'' \<le> getCount exploreGateHeld ''explore''"
    by (simp add: exploreGateHeld_state getConcurrencyLimit_def getCount_def)
  have lim: "getConcurrencyLimit (newConcurrencyManager (\<lambda>key. None) 1) ''explore'' = int (length [1::nat])"
    by (simp add: newConcurrencyManager_def getConcurrencyLimit_def)
  have held: "0 < getCount exploreGateWaiting ''explore'' \<and> queues exploreGateWaiting ''explore'' = 2 # []"
    by (simp add: exploreGateWaiting_state getCount_def)
  have none: "getCount exploreGate ''explore'' = 0"
    by (simp add: exploreGate_def newConcurrencyManager_def getCount_def)
  note d1 = gate_discipline[of exploreGateHeld "''explore''" 2 "\<lambda>key. None" 1 "[1]" 0 "[]" "[]"]
  note d2 = gate_discipline[of exploreGateWaiting "''explore''" 0 "\<lambda>key. None" 1 "[]" 2 "[]"
      "[Release ''explore'', Acquire ''explore'' 1, Release ''explore'', Release ''explore'']"]
  note d3 = gate_discipline[of exploreGate "''explore''" 0 "\<lambda>key. None" 1 "[]" 0 "[]" "[]"]
  have a: "snd (acquire exploreGateHeld ''explore'' 2) = Suspended" using d1 full by simp
  have b: "snd (acquire (gate_run (newConcurrencyManager (\<lambda>key. None) 1) (map (Acquire ''explore'') [1]))
            ''explore'' 2) = Suspended" using d1 lim by blast
  have c: "release exploreGateWaiting ''explore'' =
            (exploreGateWaiting\<lparr>queues := (queues exploreGateWaiting)(''explore'' := [])\<rparr>, Some 2)"
    using d2 held by blast
  have d: "release exploreGate ''explore'' = (exploreGate, None)" using d3 none by blast
  have e: "0 \<le> getCount (gate_run (newConcurrencyManager (\<lambda>key. None) 1)
                        [Release ''explore'', Acquire ''explore'' 1, Release ''explore'',
                         Release ''explore'']) ''explore''" using d2 by blast
  have c1: "snd (release exploreGateWaiting ''explore'') = Some 2" by (simp add: c)
  have c2: "getCount (fst (release exploreGateWaiting ''explore'')) ''explore'' = 1"
    unfolding c by (simp add: exploreGateWaiting_state getCount_def)
  have c3: "queues (fst (release exploreGateWaiting ''explore'')) ''explore'' = []"
    unfolding c by simp
  from held have h1: "0 < getCount exploreGateWaiting ''explore''"
    and h2: "queues exploreGateWaiting ''explore'' = [2]" by simp_all
  from full a lim b h1 h2 c1 c2 c3 none d e show ?thesis by blast
qed

section \<open>Completion\<close>

lemma releaseTaskSlot_key:
  "concurrencyKey task = Some key \<Longrightarrow>
   releaseTaskSlot bm task =
     (bm\<lparr>concurrencyManager := fst (release (concurrencyManager bm) key),
         events := events bm @ [Released key] @
                   resolvedEvents key (snd (release (concurrencyManager bm) key))\<rparr>,
      task\<lparr>concurrencyKey := None\<rparr>)"
  by (simp add: releaseTaskSlot_def split: prod.splits)

lemma releaseTaskSlot_no_key:
  "concurrencyKey task = None \<Longrightarrow> releaseTaskSlot bm task = (bm, task)"
  by (simp add: releaseTaskSlot_def)

lemma releaseTaskSlot_task:
  "snd (releaseTaskSlot bm task) = task\<lparr>concurrencyKey := None\<rparr>"
  by (cases "concurrencyKey task") (simp_all add: releaseTaskSlot_key releaseTaskSlot_no_key)

lemma tryCompleteTask_terminal:
  "status task \<noteq> Running \<Longrightarrow> tryCompleteTask bm now notify task = (False, task, bm)"
  by (simp add: tryCompleteTask_def)

lemma release_count:
  "0 < getCount g key \<Longrightarrow>
   getCount (fst (release g key)) key =
     (if queues g key = [] then getCount g key - 1 else getCount g key)"
  by (simp add: release_def getCount_def split: list.splits)

lemma release_queue:
  "0 < getCount g key \<Longrightarrow> queues g key = waiter # rest \<Longrightarrow>
   queues (fst (release g key)) key = rest \<and> snd (release g key) = Some waiter"
  by (simp add: release_def getCount_def)

lemma exploreGateHeld_count: "getCount exploreGateHeld ''explore'' = 1"
  by (simp add: exploreGateHeld_state getCount_def)

lemma exploreGateHeld_queue: "queues exploreGateHeld ''explore'' = []"
  by (simp add: exploreGateHeld_state)

lemma exploreGateWaiting_count: "getCount exploreGateWaiting ''explore'' = 1"
  by (simp add: exploreGateWaiting_state getCount_def)

lemma exploreGateWaiting_queue: "queues exploreGateWaiting ''explore'' = [2]"
  by (simp add: exploreGateWaiting_state)

lemma runningExplore_fields:
  "status runningExplore = Running" "concurrencyKey runningExplore = Some ''explore''"
  by (simp_all add: runningExplore_def createMockTask_def)

section \<open>The stall watchdog\<close>

lemma cancelStaleTask_task:
  "snd (cancelStaleTask bm now task) =
     task\<lparr>status := Cancelled, completedAt := Some now,
          error := Some (staleError (staleTimeout bm)), concurrencyKey := None\<rparr>"
  using releaseTaskSlot_task[of bm "task\<lparr>status := Cancelled, completedAt := Some now,
          error := Some (staleError (staleTimeout bm))\<rparr>"]
  by (simp add: cancelStaleTask_def Let_def case_prod_beta)

lemma releaseTaskSlot_config:
  "staleTimeoutMs (fst (releaseTaskSlot bm task)) = staleTimeoutMs bm"
  "minRuntimeGuardMs (fst (releaseTaskSlot bm task)) = minRuntimeGuardMs bm"
  "bm_tasks (fst (releaseTaskSlot bm task)) = bm_tasks bm"
  by (simp_all add: releaseTaskSlot_def split: option.splits prod.splits)

lemma cancelStaleTask_config:
  "staleTimeoutMs (fst (cancelStaleTask bm now task)) = staleTimeoutMs bm"
  "minRuntimeGuardMs (fst (cancelStaleTask bm now task)) = minRuntimeGuardMs bm"
  "bm_tasks (fst (cancelStaleTask bm now task)) = bm_tasks bm"
  using releaseTaskSlot_config[of bm "task\<lparr>status := Cancelled, completedAt := Some now,
          error := Some (staleError (staleTimeout bm))\<rparr>"]
  by (simp_all add: cancelStaleTask_def Let_def case_prod_beta)

lemma watched_cong:
  "staleTimeoutMs bm' = staleTimeoutMs bm \<Longrightarrow> minRuntimeGuardMs bm' = minRuntimeGuardMs bm \<Longrightarrow>
   watched bm' now task = watched bm now task"
proof -
  assume a: "staleTimeoutMs bm' = staleTimeoutMs bm" "minRuntimeGuardMs bm' = minRuntimeGuardMs bm"
  have t: "staleTimeout bm' = staleTimeout bm" and g: "minRuntimeGuard bm' = minRuntimeGuard bm"
    using a by (simp_all add: staleTimeout_def minRuntimeGuard_def)
  have "isStale bm' now task = isStale bm now task"
    unfolding isStale_def t g ..
  then show ?thesis unfolding watched_def t by simp
qed

lemma interruptLoop_step:
  "interruptLoop ((tid, task) # entries) now bm =
     interruptLoop entries now
       (if isStale bm now task
        then (fst (cancelStaleTask bm now task))\<lparr>bm_tasks := map_set (bm_tasks bm) tid (watched bm now task)\<rparr>
        else bm)"
  using cancelStaleTask_task[of bm now task] cancelStaleTask_config(3)[of bm now task]
  by (simp add: watched_def case_prod_beta)

lemma interruptLoop_tasks:
  "distinct (map fst (pre @ entries)) \<Longrightarrow>
   bm_tasks bm = map (\<lambda>e. (fst e, watched bm now (snd e))) pre @ entries \<Longrightarrow>
   bm_tasks (interruptLoop entries now bm) =
     map (\<lambda>e. (fst e, watched bm now (snd e))) (pre @ entries)"
proof (induction entries arbitrary: pre bm)
  case Nil
  then show ?case by simp
next
  case (Cons e entries)
  obtain tid task where e: "e = (tid, task)" by (cases e)
  let ?W = "\<lambda>e. (fst e, watched bm now (snd e))"
  let ?bm' = "if isStale bm now task
        then (fst (cancelStaleTask bm now task))\<lparr>bm_tasks := map_set (bm_tasks bm) tid (watched bm now task)\<rparr>
        else bm"
  have cfg: "staleTimeoutMs ?bm' = staleTimeoutMs bm" "minRuntimeGuardMs ?bm' = minRuntimeGuardMs bm"
    by (simp_all add: cancelStaleTask_config)
  have W: "(\<lambda>e. (fst e, watched ?bm' now (snd e))) = ?W"
    using watched_cong[OF cfg] by simp
  have notin: "tid \<notin> fst ` set (map ?W pre)" using Cons.prems(1) e by (auto simp: image_iff)
  have upd: "map_set (map ?W pre @ (tid, task) # entries) tid (watched bm now task) =
             map ?W pre @ (tid, watched bm now task) # entries"
    by (rule map_set_middle[OF notin])
  have tasks': "bm_tasks ?bm' = map ?W (pre @ [e]) @ entries"
  proof (cases "isStale bm now task")
    case True
    then have "bm_tasks ?bm' = map_set (bm_tasks bm) tid (watched bm now task)" by simp
    also have "\<dots> = map ?W pre @ (tid, watched bm now task) # entries"
      unfolding Cons.prems(2) e by (rule upd)
    finally show ?thesis by (simp add: e)
  next
    case False
    then have "watched bm now task = task" by (simp add: watched_def)
    then show ?thesis using False Cons.prems(2) by (simp add: e)
  qed
  have d: "distinct (map fst ((pre @ [e]) @ entries))" using Cons.prems(1) by simp
  have "bm_tasks (interruptLoop entries now ?bm') =
          map (\<lambda>e. (fst e, watched ?bm' now (snd e))) ((pre @ [e]) @ entries)"
    by (rule Cons.IH[OF d]) (simp only: W tasks')
  then show ?case unfolding e interruptLoop_step W by simp
qed

lemma checkAndInterruptStaleTasks_tasks:
  "distinct (map fst (bm_tasks bm)) \<Longrightarrow>
   bm_tasks (checkAndInterruptStaleTasks bm now) =
     map (\<lambda>e. (fst e, watched bm now (snd e))) (bm_tasks bm)"
  using interruptLoop_tasks[of "[]" "bm_tasks bm" bm now]
  by (simp add: checkAndInterruptStaleTasks_def)

lemma map_get_map_snd:
  "distinct (map fst T) \<Longrightarrow> (k, v) \<in> set T \<Longrightarrow> map_get (map (\<lambda>e. (fst e, f (snd e))) T) k = Some (f v)"
  by (induction T) (auto simp: image_iff)

lemma sublist_staleError:
  "sublist ''Stale timeout'' (staleError ms)"
  "sublist (showNat (nat (ms div 60000)) @ ''min'') (staleError ms)"
proof -
  have "staleError ms = [] @ ''Stale timeout'' @ ('' ('' @ showNat (nat (ms div 60000)) @ ''min)'')"
    by (simp add: staleError_def)
  then show "sublist ''Stale timeout'' (staleError ms)" unfolding sublist_def by blast
  have "staleError ms = ''Stale timeout ('' @ (showNat (nat (ms div 60000)) @ ''min'') @ '')''"
    by (simp add: staleError_def)
  then show "sublist (showNat (nat (ms div 60000)) @ ''min'') (staleError ms)"
    unfolding sublist_def by blast
qed

text \<open>
  Claim C3, on the watchdog as the specification describes it. For a running task of the
  registry that has a progress snapshot, one poll cycle at time \<open>now\<close> cancels it exactly
  when both \<open>now - progress.lastUpdate > staleTimeoutMs\<close> and
  \<open>now - startedAt > minRuntimeGuardMs\<close>. A cancelled task has \<^verbatim>\<open>completedAt = now\<close>, no
  \<^verbatim>\<open>concurrencyKey\<close>, and an error text that contains \<^verbatim>\<open>Stale timeout\<close> and the threshold
  in minutes followed by \<^verbatim>\<open>min\<close>; a task that is not cancelled is unchanged. Without
  configuration the timeout is 180000 ms and the guard 30000 ms.
\<close>

theorem watchdog_cancels_iff_stale:
  assumes "distinct (map fst (bm_tasks bm))" and "(tid, task) \<in> set (bm_tasks bm)"
    and "status task = Running" and "progress task = Some p"
  shows "\<exists>task'. map_get (bm_tasks (checkAndInterruptStaleTasks bm now)) tid = Some task'
     \<and> (status task' = Cancelled \<longleftrightarrow>
          now - lastUpdate p > staleTimeout bm \<and> now - startedAt task > minRuntimeGuard bm)
     \<and> (status task' = Cancelled \<longrightarrow>
          completedAt task' = Some now \<and> concurrencyKey task' = None \<and>
          (\<exists>msg. error task' = Some msg \<and> sublist ''Stale timeout'' msg \<and>
                  sublist (showNat (nat (staleTimeout bm div 60000)) @ ''min'') msg))
     \<and> (status task' \<noteq> Cancelled \<longrightarrow> task' = task)
     \<and> (staleTimeoutMs bm = None \<longrightarrow> staleTimeout bm = 180000)
     \<and> (minRuntimeGuardMs bm = None \<longrightarrow> minRuntimeGuard bm = 30000)"
proof -
  have get: "map_get (bm_tasks (checkAndInterruptStaleTasks bm now)) tid = Some (watched bm now task)"
    unfolding checkAndInterruptStaleTasks_tasks[OF assms(1)]
    by (rule map_get_map_snd[OF assms(1,2)])
  have stale: "isStale bm now task \<longleftrightarrow>
      now - lastUpdate p > staleTimeout bm \<and> now - startedAt task > minRuntimeGuard bm"
    using assms(3,4) by (simp add: isStale_def Let_def)
  have st: "status (watched bm now task) = Cancelled \<longleftrightarrow> isStale bm now task"
    using assms(3) by (simp add: watched_def)
  show ?thesis
    apply (rule exI[of _ "watched bm now task"])
    using get stale st sublist_staleError[of "staleTimeout bm"]
    by (auto simp: watched_def staleTimeout_def minRuntimeGuard_def
        DEFAULT_STALE_TIMEOUT_MS_def DEFAULT_MIN_RUNTIME_GUARD_MS_def)
qed

text \<open>
  The two tests: the task of age 20 s stays as it is; the task of age 300 s is cancelled,
  with \<^verbatim>\<open>completedAt\<close> set and an error that contains \<^verbatim>\<open>Stale timeout\<close> and \<^verbatim>\<open>3min\<close>.
\<close>

theorem watchdog_cancels_iff_stale_witness:
  "distinct (map fst (bm_tasks watchExample))
   \<and> (''task-1'', youngTask) \<in> set (bm_tasks watchExample)
   \<and> (''task-3'', staleTask) \<in> set (bm_tasks watchExample)
   \<and> status youngTask = Running \<and> status staleTask = Running
   \<and> progress youngTask = Some \<lparr>toolCalls = 0, lastTool = None, lastUpdate = 800000\<rparr>
   \<and> progress staleTask = Some \<lparr>toolCalls = 2, lastTool = None, lastUpdate = 800000\<rparr>
   \<and> map_get (bm_tasks (checkAndInterruptStaleTasks watchExample 1000000)) ''task-1'' = Some youngTask
   \<and> (\<exists>task'. map_get (bm_tasks (checkAndInterruptStaleTasks watchExample 1000000)) ''task-3'' = Some task'
         \<and> status task' = Cancelled \<and> completedAt task' = Some 1000000
         \<and> (\<exists>msg. error task' = Some msg \<and> sublist ''Stale timeout'' msg \<and> sublist ''3min'' msg))"
proof -
  have d: "distinct (map fst (bm_tasks watchExample))" by (simp add: watchExample_def)
  have m1: "(''task-1'', youngTask) \<in> set (bm_tasks watchExample)" by (simp add: watchExample_def)
  have m3: "(''task-3'', staleTask) \<in> set (bm_tasks watchExample)" by (simp add: watchExample_def)
  have s1: "status youngTask = Running" by (simp add: youngTask_def createMockTask_def)
  have s3: "status staleTask = Running" by (simp add: staleTask_def createMockTask_def)
  have p1: "progress youngTask = Some \<lparr>toolCalls = 0, lastTool = None, lastUpdate = 800000\<rparr>"
    by (simp add: youngTask_def)
  have p3: "progress staleTask = Some \<lparr>toolCalls = 2, lastTool = None, lastUpdate = 800000\<rparr>"
    by (simp add: staleTask_def)
  have cfg: "staleTimeout watchExample = 180000" "minRuntimeGuard watchExample = 30000"
    by (simp_all add: watchExample_def staleTimeout_def minRuntimeGuard_def
        DEFAULT_MIN_RUNTIME_GUARD_MS_def)
  have a1: "startedAt youngTask = 980000" by (simp add: youngTask_def createMockTask_def)
  have a3: "startedAt staleTask = 700000" by (simp add: staleTask_def createMockTask_def)
  have three: "showNat 3 = ''3''" by (simp add: showNat.simps)
  from watchdog_cancels_iff_stale[OF d m1 s1 p1, of 1000000]
  have young: "map_get (bm_tasks (checkAndInterruptStaleTasks watchExample 1000000)) ''task-1'' = Some youngTask"
    by (auto simp: cfg a1)
  from watchdog_cancels_iff_stale[OF d m3 s3 p3, of 1000000]
  have old: "\<exists>task'. map_get (bm_tasks (checkAndInterruptStaleTasks watchExample 1000000)) ''task-3'' = Some task'
         \<and> status task' = Cancelled \<and> completedAt task' = Some 1000000
         \<and> (\<exists>msg. error task' = Some msg \<and> sublist ''Stale timeout'' msg \<and> sublist ''3min'' msg)"
    by (auto simp: cfg a3 three)
  from d m1 m3 s1 s3 p1 p3 young old show ?thesis by blast
qed

section \<open>Resuming a terminal task\<close>

lemma resume_terminal_mock:
  assumes "findBySession m (sessionId input) = Some t" and "status t \<noteq> Running"
  shows "\<exists>r m'. resume m now input = Inr (r, m') \<and> resumedFrom input t r
     \<and> findBySession m' (sessionId input) = Some r
     \<and> resumeCalls m' = resumeCalls m @ [(sessionId input, input_prompt input)]"
  using resume_terminal[OF assms, of now] unfolding resumedFrom_def by blast

lemma resumeTransition_resumedFrom:
  "resumedFrom input t (resumeTransition now input t)"
  by (simp add: resumedFrom_def resumeTransition_def)

lemma resumeTransition_key:
  "concurrencyKey (resumeTransition now input t) = concurrencyGroup t"
  by (simp add: resumeTransition_def)

lemma bm_resume_no_key:
  assumes "find (\<lambda>task. sessionID task = sessionId input) (map_values (bm_tasks bm)) = Some t"
    and "status t \<noteq> Running" and "concurrencyGroup t = None"
  shows "bm_resume bm now caller input =
     Inr (Returned (resumeTransition now input t)
            (bm\<lparr>bm_tasks := updateBySession (bm_tasks bm) (sessionId input) (resumeTransition now input t),
                events := events bm @ [PromptSession (resumeTransition now input t)]\<rparr>))"
  using assms by (simp add: bm_resume_def finishResume_def Let_def)

lemma bm_resume_granted:
  assumes "find (\<lambda>task. sessionID task = sessionId input) (map_values (bm_tasks bm)) = Some t"
    and "status t \<noteq> Running" and "concurrencyGroup t = Some key"
    and "getCount (concurrencyManager bm) key < getConcurrencyLimit (concurrencyManager bm) key"
  shows "bm_resume bm now caller input =
     Inr (Returned (resumeTransition now input t)
            (bm\<lparr>concurrencyManager :=
                   (concurrencyManager bm)\<lparr>counts := (counts (concurrencyManager bm))
                      (key := counts (concurrencyManager bm) key + 1)\<rparr>,
                bm_tasks := updateBySession (bm_tasks bm) (sessionId input) (resumeTransition now input t),
                events := events bm @ [PromptSession (resumeTransition now input t)]\<rparr>))"
  using assms by (simp add: bm_resume_def finishResume_def Let_def acquire_free)

lemma bm_resume_suspended:
  assumes "find (\<lambda>task. sessionID task = sessionId input) (map_values (bm_tasks bm)) = Some t"
    and "status t \<noteq> Running" and "concurrencyGroup t = Some key"
    and "getConcurrencyLimit (concurrencyManager bm) key \<le> getCount (concurrencyManager bm) key"
  shows "bm_resume bm now caller input =
     Inr (AwaitingSlot
            (bm\<lparr>concurrencyManager :=
                   (concurrencyManager bm)\<lparr>queues := (queues (concurrencyManager bm))
                      (key := queues (concurrencyManager bm) key @ [caller])\<rparr>\<rparr>))"
  using assms by (simp add: bm_resume_def acquire_full)

text \<open>
  Claim C6. On \<^verbatim>\<open>MockBackgroundManager.resume\<close>, the code of the test file: for the task of
  the session, when it is not running, the call returns it running, with \<^verbatim>\<open>completedAt\<close>
  and \<^verbatim>\<open>error\<close> cleared, the caller's \<^verbatim>\<open>parentSessionID\<close>, \<^verbatim>\<open>parentMessageID\<close> and
  \<^verbatim>\<open>parentModel\<close>, and its own \<^verbatim>\<open>id\<close>, \<^verbatim>\<open>sessionID\<close>, \<^verbatim>\<open>description\<close>, \<^verbatim>\<open>agent\<close> and
  tool call count; the registry then holds that task. On \<^verbatim>\<open>BackgroundManager.resume\<close> as
  the specification describes it: a task without a stored key resumes without touching
  the gate; a task with a stored key takes a slot of that key (the held count grows by
  one) and holds the key again; when no slot is free the call waits last in the key's
  queue with the registry unchanged, and resumes the task in the same way once it has
  the slot.
\<close>

theorem resume_terminal_transition:
  "(findBySession m (sessionId input) = Some t \<and> status t \<noteq> Running \<longrightarrow>
      (\<exists>r m'. resume m now input = Inr (r, m') \<and> resumedFrom input t r
         \<and> findBySession m' (sessionId input) = Some r))
   \<and> (find (\<lambda>task. sessionID task = sessionId input) (map_values (bm_tasks bm)) = Some u
        \<and> status u \<noteq> Running \<longrightarrow>
        (concurrencyGroup u = None \<longrightarrow>
           (\<exists>r bm'. bm_resume bm now caller input = Inr (Returned r bm')
              \<and> concurrencyManager bm' = concurrencyManager bm
              \<and> concurrencyKey r = None \<and> resumedFrom input u r))
        \<and> (\<forall>key. concurrencyGroup u = Some key
              \<and> getCount (concurrencyManager bm) key < getConcurrencyLimit (concurrencyManager bm) key \<longrightarrow>
           (\<exists>r bm'. bm_resume bm now caller input = Inr (Returned r bm')
              \<and> getCount (concurrencyManager bm') key = getCount (concurrencyManager bm) key + 1
              \<and> concurrencyKey r = Some key \<and> resumedFrom input u r))
        \<and> (\<forall>key. concurrencyGroup u = Some key
              \<and> getConcurrencyLimit (concurrencyManager bm) key \<le> getCount (concurrencyManager bm) key \<longrightarrow>
           (\<exists>bm'. bm_resume bm now caller input = Inr (AwaitingSlot bm')
              \<and> queues (concurrencyManager bm') key = queues (concurrencyManager bm) key @ [caller]
              \<and> bm_tasks bm' = bm_tasks bm)
           \<and> (\<forall>bm2. \<exists>r bm3. finishResume bm2 now input u = Returned r bm3
                 \<and> concurrencyManager bm3 = concurrencyManager bm2
                 \<and> concurrencyKey r = Some key \<and> resumedFrom input u r)))"
proof (intro conjI impI allI)
  assume "findBySession m (sessionId input) = Some t \<and> status t \<noteq> Running"
  then show "\<exists>r m'. resume m now input = Inr (r, m') \<and> resumedFrom input t r
         \<and> findBySession m' (sessionId input) = Some r"
    using resume_terminal_mock[of m input t now] by blast
next
  assume a: "find (\<lambda>task. sessionID task = sessionId input) (map_values (bm_tasks bm)) = Some u
        \<and> status u \<noteq> Running" and k: "concurrencyGroup u = None"
  show "\<exists>r bm'. bm_resume bm now caller input = Inr (Returned r bm')
              \<and> concurrencyManager bm' = concurrencyManager bm
              \<and> concurrencyKey r = None \<and> resumedFrom input u r"
    using bm_resume_no_key[of input bm u now caller] a k
      resumeTransition_resumedFrom[of input u now] resumeTransition_key[of now input u]
    by simp
next
  fix key
  assume a: "find (\<lambda>task. sessionID task = sessionId input) (map_values (bm_tasks bm)) = Some u
        \<and> status u \<noteq> Running"
    and k: "concurrencyGroup u = Some key
              \<and> getCount (concurrencyManager bm) key < getConcurrencyLimit (concurrencyManager bm) key"
  show "\<exists>r bm'. bm_resume bm now caller input = Inr (Returned r bm')
              \<and> getCount (concurrencyManager bm') key = getCount (concurrencyManager bm) key + 1
              \<and> concurrencyKey r = Some key \<and> resumedFrom input u r"
    using bm_resume_granted[of input bm u key now caller] a k
      resumeTransition_resumedFrom[of input u now] resumeTransition_key[of now input u]
    by (simp add: getCount_def)
next
  fix key
  assume a: "find (\<lambda>task. sessionID task = sessionId input) (map_values (bm_tasks bm)) = Some u
        \<and> status u \<noteq> Running"
    and k: "concurrencyGroup u = Some key
              \<and> getConcurrencyLimit (concurrencyManager bm) key \<le> getCount (concurrencyManager bm) key"
  show "\<exists>bm'. bm_resume bm now caller input = Inr (AwaitingSlot bm')
              \<and> queues (concurrencyManager bm') key = queues (concurrencyManager bm) key @ [caller]
              \<and> bm_tasks bm' = bm_tasks bm"
    using bm_resume_suspended[of input bm u key now caller] a k by simp
next
  fix key bm2
  assume k: "concurrencyGroup u = Some key
              \<and> getConcurrencyLimit (concurrencyManager bm) key \<le> getCount (concurrencyManager bm) key"
  show "\<exists>r bm3. finishResume bm2 now input u = Returned r bm3
                 \<and> concurrencyManager bm3 = concurrencyManager bm2
                 \<and> concurrencyKey r = Some key \<and> resumedFrom input u r"
    using k resumeTransition_resumedFrom[of input u now] resumeTransition_key[of now input u]
    by (simp add: finishResume_def Let_def)
qed

text \<open>
  The tests: the completed task resumes under the new parent with its identity and its 42
  tool calls, and takes the slot of \<^verbatim>\<open>external-key\<close> again, whose count becomes 1.
\<close>

theorem resume_terminal_transition_witness:
  "findBySession completedRegistry (sessionId resumeNewParent) = Some completedTaskA
   \<and> find (\<lambda>task. sessionID task = sessionId resumeNewParent)
        (map_values (bm_tasks completedManager)) = Some completedTaskA
   \<and> status completedTaskA = Completed
   \<and> concurrencyGroup completedTaskA = Some ''external-key''
   \<and> concurrencyKey completedTaskA = None
   \<and> getCount (concurrencyManager completedManager) ''external-key'' = 0
   \<and> getConcurrencyLimit (concurrencyManager completedManager) ''external-key'' = 5
   \<and> (\<exists>r m'. resume completedRegistry 7 resumeNewParent = Inr (r, m')
         \<and> status r = Running \<and> completedAt r = None \<and> error r = None
         \<and> parentSessionID r = ''new-parent'' \<and> parentMessageID r = ''new-msg''
         \<and> parentModel r = Some \<lparr>providerID = ''anthropic'', modelID = ''claude-opus''\<rparr>
         \<and> task_id r = ''task-a'' \<and> sessionID r = ''session-a''
         \<and> description r = ''original description'' \<and> agent r = ''explore''
         \<and> map_option toolCalls (progress r) = Some 42)
   \<and> (\<exists>r bm'. bm_resume completedManager 7 1 resumeNewParent = Inr (Returned r bm')
         \<and> getCount (concurrencyManager bm') ''external-key'' = 1
         \<and> concurrencyKey r = Some ''external-key'' \<and> status r = Running
         \<and> parentSessionID r = ''new-parent'')"
proof -
  have f1: "findBySession completedRegistry (sessionId resumeNewParent) = Some completedTaskA"
    by (simp add: findBySession_def completedRegistry_def addTask_def emptyManager_def
        map_values_def resumeNewParent_def completedTaskA_def createMockTask_def)
  have f2: "find (\<lambda>task. sessionID task = sessionId resumeNewParent)
        (map_values (bm_tasks completedManager)) = Some completedTaskA"
    by (simp add: completedManager_def map_values_def resumeNewParent_def completedTaskA_def
        createMockTask_def)
  have st: "status completedTaskA = Completed" by (simp add: completedTaskA_def)
  have nr: "status completedTaskA \<noteq> Running" by (simp add: st)
  have grp: "concurrencyGroup completedTaskA = Some ''external-key''" by (simp add: completedTaskA_def)
  have key: "concurrencyKey completedTaskA = None" by (simp add: completedTaskA_def createMockTask_def)
  have cnt: "getCount (concurrencyManager completedManager) ''external-key'' = 0"
    by (simp add: completedManager_def newConcurrencyManager_def getCount_def)
  have lim: "getConcurrencyLimit (concurrencyManager completedManager) ''external-key'' = 5"
    by (simp add: completedManager_def newConcurrencyManager_def getConcurrencyLimit_def)
  note T = resume_terminal_transition[of completedRegistry resumeNewParent completedTaskA 7
      completedManager completedTaskA 1]
  from T f1 nr obtain r m' where
    r: "resume completedRegistry 7 resumeNewParent = Inr (r, m')"
    and rf: "resumedFrom resumeNewParent completedTaskA r" by blast
  have mock: "\<exists>r m'. resume completedRegistry 7 resumeNewParent = Inr (r, m')
         \<and> status r = Running \<and> completedAt r = None \<and> error r = None
         \<and> parentSessionID r = ''new-parent'' \<and> parentMessageID r = ''new-msg''
         \<and> parentModel r = Some \<lparr>providerID = ''anthropic'', modelID = ''claude-opus''\<rparr>
         \<and> task_id r = ''task-a'' \<and> sessionID r = ''session-a''
         \<and> description r = ''original description'' \<and> agent r = ''explore''
         \<and> map_option toolCalls (progress r) = Some 42"
    using r rf
    by (simp add: resumedFrom_def resumeNewParent_def completedTaskA_def createMockTask_def)
  have free: "getCount (concurrencyManager completedManager) ''external-key''
        < getConcurrencyLimit (concurrencyManager completedManager) ''external-key''"
    by (simp add: cnt lim)
  from T f2 nr grp free obtain r2 bm' where
    r2: "bm_resume completedManager 7 1 resumeNewParent = Inr (Returned r2 bm')"
    and c2: "getCount (concurrencyManager bm') ''external-key''
              = getCount (concurrencyManager completedManager) ''external-key'' + 1"
    and k2: "concurrencyKey r2 = Some ''external-key''"
    and rf2: "resumedFrom resumeNewParent completedTaskA r2" by blast
  have real: "\<exists>r bm'. bm_resume completedManager 7 1 resumeNewParent = Inr (Returned r bm')
         \<and> getCount (concurrencyManager bm') ''external-key'' = 1
         \<and> concurrencyKey r = Some ''external-key'' \<and> status r = Running
         \<and> parentSessionID r = ''new-parent''"
    using r2 c2 k2 rf2 by (simp add: cnt resumedFrom_def resumeNewParent_def)
  from f1 f2 st grp key cnt lim mock real show ?thesis by blast
qed

section \<open>Release before the blocking call\<close>

lemma storeTask_fields [simp]:
  "events (storeTask bm task task') = events bm"
  "concurrencyManager (storeTask bm task task') = concurrencyManager bm"
  by (simp_all add: storeTask_def)

lemma tryCompleteTask_running:
  assumes "status task = Running" and "concurrencyKey task = Some key"
  shows "tryCompleteTask bm now notify task =
     (True,
      task\<lparr>status := Completed, completedAt := Some now, concurrencyKey := None\<rparr>,
      (storeTask
         (bm\<lparr>concurrencyManager := fst (release (concurrencyManager bm) key),
             events := events bm @ [Released key] @
                       resolvedEvents key (snd (release (concurrencyManager bm) key))\<rparr>)
         task (task\<lparr>status := Completed, completedAt := Some now, concurrencyKey := None\<rparr>))
       \<lparr>events := events bm @ [Released key] @
                   resolvedEvents key (snd (release (concurrencyManager bm) key)) @
                   [NotifyParentSession
                      (task\<lparr>status := Completed, completedAt := Some now, concurrencyKey := None\<rparr>)] @
                   deliveryLog
                     (notify (task\<lparr>status := Completed, completedAt := Some now, concurrencyKey := None\<rparr>))
                     (task\<lparr>status := Completed, completedAt := Some now, concurrencyKey := None\<rparr>)\<rparr>)"
  using assms
  by (simp add: tryCompleteTask_def Let_def releaseTaskSlot_key)

lemma registered_lookup:
  assumes d: "distinct (map fst T)" and k: "\<forall>e \<in> set T. fst e = task_id (snd e)"
    and f: "find (\<lambda>t. sessionID t = s) (map snd T) = Some task"
  shows "map_get T (task_id task) = Some task"
  using assms
proof (induction T)
  case Nil
  then show ?case by simp
next
  case (Cons e T)
  obtain k v where e: "e = (k, v)" by (cases e)
  show ?case
  proof (cases "sessionID v = s")
    case True
    then have "v = task" using Cons.prems(3) e by simp
    moreover have "k = task_id v" using Cons.prems(2) e by simp
    ultimately show ?thesis by (simp add: e)
  next
    case False
    then have f': "find (\<lambda>t. sessionID t = s) (map snd T) = Some task"
      using Cons.prems(3) e by simp
    have ih: "map_get T (task_id task) = Some task"
      using Cons.IH[OF _ _ f'] Cons.prems(1,2) by simp
    have "(task_id task, task) \<in> set T" using ih
      by (induction T) (auto split: if_splits)
    then have "task_id task \<in> fst ` set T" by force
    then have "k \<noteq> task_id task" using Cons.prems(1) e by auto
    then show ?thesis using ih by (simp add: e)
  qed
qed

lemma find_after_map_set:
  assumes d: "distinct (map fst T)" and k: "\<forall>e \<in> set T. fst e = task_id (snd e)"
    and f: "find (\<lambda>t. sessionID t = s) (map snd T) = Some task"
    and s': "sessionID task' = s"
  shows "find (\<lambda>t. sessionID t = s) (map snd (map_set T (task_id task) task')) = Some task'"
  using assms
proof (induction T)
  case Nil
  then show ?case by simp
next
  case (Cons e T)
  obtain k v where e: "e = (k, v)" by (cases e)
  show ?case
  proof (cases "sessionID v = s")
    case True
    then have "v = task" using Cons.prems(3) e by simp
    moreover have "k = task_id v" using Cons.prems(2) e by simp
    ultimately show ?thesis using Cons.prems(4) by (simp add: e)
  next
    case False
    then have f': "find (\<lambda>t. sessionID t = s) (map snd T) = Some task"
      using Cons.prems(3) e by simp
    have "map_get (e # T) (task_id task) = Some task"
      by (rule registered_lookup[OF Cons.prems(1,2,3)])
    moreover have "v \<noteq> task" using False Cons.prems(3) f' by (auto dest: find_Some_iff[THEN iffD1])
    ultimately have kne: "k \<noteq> task_id task" by (auto simp: e split: if_splits)
    have "find (\<lambda>t. sessionID t = s) (map snd (map_set T (task_id task) task')) = Some task'"
      using Cons.IH[OF _ _ f' Cons.prems(4)] Cons.prems(1,2) by simp
    then show ?thesis using kne False by (simp add: e)
  qed
qed

lemma tryCompleteTask_registry:
  assumes "status task = Running" and "concurrencyKey task = Some key" and "registered bm task"
  shows "find (\<lambda>t. sessionID t = sessionID task)
           (map_values (bm_tasks (snd (snd (tryCompleteTask bm now notify task))))) =
         Some (task\<lparr>status := Completed, completedAt := Some now, concurrencyKey := None\<rparr>)"
proof -
  from assms(3) have d: "distinct (map fst (bm_tasks bm))"
    and k: "\<forall>e \<in> set (bm_tasks bm). fst e = task_id (snd e)"
    and f: "find (\<lambda>t. sessionID t = sessionID task) (map snd (bm_tasks bm)) = Some task"
    by (simp_all add: registered_def map_values_def)
  have held: "map_get (bm_tasks bm) (task_id task) = Some task"
    by (rule registered_lookup[OF d k f])
  have "find (\<lambda>t. sessionID t = sessionID task)
          (map snd (map_set (bm_tasks bm) (task_id task)
             (task\<lparr>status := Completed, completedAt := Some now, concurrencyKey := None\<rparr>))) =
        Some (task\<lparr>status := Completed, completedAt := Some now, concurrencyKey := None\<rparr>)"
    by (rule find_after_map_set[OF d k f]) simp
  then show ?thesis
    unfolding tryCompleteTask_running[OF assms(1,2)]
    using held by (simp add: storeTask_def map_values_def)
qed


lemma cancelStaleTask_key:
  assumes "concurrencyKey task = Some key"
  shows "cancelStaleTask bm now task =
     (bm\<lparr>concurrencyManager := fst (release (concurrencyManager bm) key),
         events := events bm @ [Released key] @
                   resolvedEvents key (snd (release (concurrencyManager bm) key)) @
                   [AbortSession (task\<lparr>status := Cancelled, completedAt := Some now,
                       error := Some (staleError (staleTimeout bm)), concurrencyKey := None\<rparr>)]\<rparr>,
      task\<lparr>status := Cancelled, completedAt := Some now,
           error := Some (staleError (staleTimeout bm)), concurrencyKey := None\<rparr>)"
  using assms by (simp add: cancelStaleTask_def Let_def releaseTaskSlot_key)

lemma cancelStaleTask_events_grow:
  "\<exists>E. events (fst (cancelStaleTask bm now task)) = events bm @ E"
  by (cases "concurrencyKey task")
     (simp_all add: cancelStaleTask_def Let_def releaseTaskSlot_key releaseTaskSlot_no_key)

lemma isStale_cong:
  assumes "staleTimeoutMs bm' = staleTimeoutMs bm" and "minRuntimeGuardMs bm' = minRuntimeGuardMs bm"
  shows "isStale bm' now task = isStale bm now task"
proof -
  have a: "staleTimeout bm' = staleTimeout bm" and b: "minRuntimeGuard bm' = minRuntimeGuard bm"
    using assms by (simp_all add: staleTimeout_def minRuntimeGuard_def)
  show ?thesis unfolding isStale_def a b by (rule refl)
qed

lemma interruptLoop_events_grow:
  "\<exists>E. events (interruptLoop entries now bm) = events bm @ E"
proof (induction entries arbitrary: bm)
  case Nil
  then show ?case by simp
next
  case (Cons e entries)
  obtain tid task where e: "e = (tid, task)" by (cases e)
  let ?bm' = "if isStale bm now task
        then (fst (cancelStaleTask bm now task))\<lparr>bm_tasks := map_set (bm_tasks bm) tid (watched bm now task)\<rparr>
        else bm"
  obtain E1 where E1: "events ?bm' = events bm @ E1"
    using cancelStaleTask_events_grow[of bm now task] by (cases "isStale bm now task") auto
  obtain E2 where E2: "events (interruptLoop entries now ?bm') = events ?bm' @ E2"
    using Cons.IH[of ?bm'] by blast
  show ?case unfolding e interruptLoop_step E2 E1 by simp
qed

lemma interruptLoop_release_before_abort:
  assumes "(tid, task) \<in> set entries" and "isStale bm now task" and "concurrencyKey task = Some key"
  shows "\<exists>A R B. events (interruptLoop entries now bm) =
           events bm @ A @ [Released key] @ R @ [AbortSession (watched bm now task)] @ B"
  using assms
proof (induction entries arbitrary: bm)
  case Nil
  then show ?case by simp
next
  case (Cons e entries)
  obtain tid' task' where e: "e = (tid', task')" by (cases e)
  let ?bm' = "if isStale bm now task'
        then (fst (cancelStaleTask bm now task'))\<lparr>bm_tasks := map_set (bm_tasks bm) tid' (watched bm now task')\<rparr>
        else bm"
  have step: "interruptLoop (e # entries) now bm = interruptLoop entries now ?bm'"
    unfolding e by (rule interruptLoop_step)
  show ?case
  proof (cases "e = (tid, task)")
    case True
    then have same: "tid' = tid" "task' = task" using e by simp_all
    have w: "watched bm now task =
        task\<lparr>status := Cancelled, completedAt := Some now,
             error := Some (staleError (staleTimeout bm)), concurrencyKey := None\<rparr>"
      using Cons.prems(2) by (simp add: watched_def)
    have ev: "events ?bm' = events bm @ [Released key] @
                resolvedEvents key (snd (release (concurrencyManager bm) key)) @
                [AbortSession (watched bm now task)]"
      using Cons.prems(2) by (simp add: same cancelStaleTask_key[OF Cons.prems(3)] w)
    obtain B where "events (interruptLoop entries now ?bm') = events ?bm' @ B"
      using interruptLoop_events_grow[of entries now ?bm'] by blast
    then have "events (interruptLoop (e # entries) now bm) =
        events bm @ [] @ [Released key] @ resolvedEvents key (snd (release (concurrencyManager bm) key))
          @ [AbortSession (watched bm now task)] @ B"
      unfolding step ev by simp
    then show ?thesis by blast
  next
    case False
    then have mem: "(tid, task) \<in> set entries" using Cons.prems(1) by simp
    have cfg: "staleTimeoutMs ?bm' = staleTimeoutMs bm" "minRuntimeGuardMs ?bm' = minRuntimeGuardMs bm"
      by (simp_all add: cancelStaleTask_config)
    have st: "isStale ?bm' now task" using Cons.prems(2) isStale_cong[OF cfg] by simp
    have w: "watched ?bm' now task = watched bm now task" by (rule watched_cong[OF cfg])
    obtain E1 where E1: "events ?bm' = events bm @ E1"
      using cancelStaleTask_events_grow[of bm now task'] by (cases "isStale bm now task'") auto
    obtain A R B where "events (interruptLoop entries now ?bm') =
           events ?bm' @ A @ [Released key] @ R @ [AbortSession (watched ?bm' now task)] @ B"
      using Cons.IH[OF mem st Cons.prems(3)] by blast
    then have "events (interruptLoop (e # entries) now bm) =
           events bm @ (E1 @ A) @ [Released key] @ R @ [AbortSession (watched bm now task)] @ B"
      unfolding step w E1 by simp
    then show ?thesis by blast
  qed
qed

lemma find_map_watched:
  "find (\<lambda>t. sessionID t = s) (map snd (map (\<lambda>e. (fst e, watched bm now (snd e))) T)) =
   map_option (watched bm now) (find (\<lambda>t. sessionID t = s) (map snd T))"
  by (induction T) (auto simp: watched_def)

lemma find_in_registry:
  "find (\<lambda>t. sessionID t = s) (map snd T) = Some task \<Longrightarrow>
   distinct (map fst T) \<Longrightarrow> \<forall>e \<in> set T. fst e = task_id (snd e) \<Longrightarrow> (task_id task, task) \<in> set T"
proof -
  assume a: "find (\<lambda>t. sessionID t = s) (map snd T) = Some task" "distinct (map fst T)"
    "\<forall>e \<in> set T. fst e = task_id (snd e)"
  have "map_get T (task_id task) = Some task" by (rule registered_lookup[OF a(2,3,1)])
  then show ?thesis by (induction T) (auto split: if_splits)
qed

lemma poll_cancels_registered:
  assumes "concurrencyKey task = Some key" and "registered bm task" and "isStale bm now task"
  shows "find (\<lambda>t. sessionID t = sessionID task)
           (map_values (bm_tasks (checkAndInterruptStaleTasks bm now))) = Some (watched bm now task)"
    and "\<exists>A R B. events (checkAndInterruptStaleTasks bm now) =
           events bm @ A @ [Released key] @ R @ [AbortSession (watched bm now task)] @ B"
proof -
  from assms(2) have d: "distinct (map fst (bm_tasks bm))"
    and k: "\<forall>e \<in> set (bm_tasks bm). fst e = task_id (snd e)"
    and f: "find (\<lambda>t. sessionID t = sessionID task) (map snd (bm_tasks bm)) = Some task"
    by (simp_all add: registered_def map_values_def)
  show "find (\<lambda>t. sessionID t = sessionID task)
           (map_values (bm_tasks (checkAndInterruptStaleTasks bm now))) = Some (watched bm now task)"
    unfolding checkAndInterruptStaleTasks_tasks[OF d] map_values_def find_map_watched f by simp
  have mem: "(task_id task, task) \<in> set (bm_tasks bm)" by (rule find_in_registry[OF f d k])
  show "\<exists>A R B. events (checkAndInterruptStaleTasks bm now) =
           events bm @ A @ [Released key] @ R @ [AbortSession (watched bm now task)] @ B"
    unfolding checkAndInterruptStaleTasks_def
    by (rule interruptLoop_release_before_abort[OF mem assms(3,1)])
qed


lemma bm_resume_free:
  assumes f: "find (\<lambda>t. sessionID t = sessionId input) (map_values (bm_tasks bm)) = Some t"
    and s: "status t \<noteq> Running" and g: "concurrencyGroup t = Some key"
    and c: "getCount (concurrencyManager bm) key < getConcurrencyLimit (concurrencyManager bm) key"
  shows "\<exists>r bm'. bm_resume bm now caller input = Inr (Returned r bm')
        \<and> status r = Running \<and> concurrencyKey r = Some key
        \<and> getCount (concurrencyManager bm') key = getCount (concurrencyManager bm) key + 1
        \<and> events bm' = events bm @ [PromptSession r]
        \<and> find (\<lambda>t. sessionID t = sessionId input) (map_values (bm_tasks bm')) = Some r"
proof -
  let ?r = "resumeTransition now input t"
  have sid: "sessionID ?r = sessionId input"
    using f by (auto simp: resumeTransition_def find_Some_iff)
  have reg: "find (\<lambda>t. sessionID t = sessionId input)
               (map snd (updateBySession (bm_tasks bm) (sessionId input) ?r)) = Some ?r"
    using f sid unfolding map_values_def by (rule findBySession_updateBySession)
  have st: "status ?r = Running" by (simp add: resumeTransition_def)
  have k: "concurrencyKey ?r = Some key" using g by (simp add: resumeTransition_key)
  show ?thesis
    unfolding bm_resume_granted[OF f s g c]
    using reg st k by (simp add: getCount_def map_values_def)
qed

lemma bm_resume_full:
  assumes f: "find (\<lambda>t. sessionID t = sessionId input) (map_values (bm_tasks bm)) = Some t"
    and s: "status t \<noteq> Running" and g: "concurrencyGroup t = Some key"
    and c: "getConcurrencyLimit (concurrencyManager bm) key \<le> getCount (concurrencyManager bm) key"
  shows "\<exists>bm'. bm_resume bm now caller input = Inr (AwaitingSlot bm')
        \<and> queues (concurrencyManager bm') key = queues (concurrencyManager bm) key @ [caller]
        \<and> getCount (concurrencyManager bm') key = getCount (concurrencyManager bm) key
        \<and> events bm' = events bm \<and> bm_tasks bm' = bm_tasks bm"
  unfolding bm_resume_suspended[OF f s g c] by (simp add: getCount_def)

lemma watched_stale:
  "isStale bm now task \<Longrightarrow>
   status (watched bm now task) = Cancelled \<and> concurrencyKey (watched bm now task) = None
   \<and> concurrencyGroup (watched bm now task) = concurrencyGroup task"
  by (simp add: watched_def)

text \<open>
  Claim C1. A running task that holds the key \<open>key\<close>, on each path out of the running
  state, whatever the notification delivery does (it may hang, time out or throw):

  \<^item> completion: \<^verbatim>\<open>tryCompleteTask\<close> returns true; the task is completed with its
    \<^verbatim>\<open>concurrencyKey\<close> cleared, the gate is the gate after the release, and the events
    the call adds are, in this order, the release, the resolution of the waiter the release
    woke (if any), the start of the notification, and the log entry of a failed delivery
    (if it failed); a registered task is stored so in the registry;
  \<^item> cancellation: \<^verbatim>\<open>cancelStaleTask\<close> leaves the task cancelled with its key cleared, and the
    events it adds are the release, the resolution of the woken waiter, then the abort
    call; in a poll cycle over a registry that holds the task and finds it stale, the
    release of its key precedes the abort of its session, whatever else the cycle cancels;
  \<^item> a waiting \<^verbatim>\<open>acquire\<close>: when the slot is held and a caller waits on the key, the
    release resolves the earliest waiter, so its resolution stands in the log before the
    notification or the abort starts;
  \<^item> resume: in the manager that the completion, or the poll cycle that cancelled the
    task, leaves behind, the task found for the session is terminal with its key cleared
    and the release is in the log; a resume of it with a free slot re-acquires the key
    (the count rises by one), returns the task running and holding the key, and starts the
    resume prompt after that, as the last event; with no free slot the caller is queued
    last on the key and nothing is started or changed.
\<close>

theorem release_before_blocking_call:
  assumes run: "status task = Running" and key: "concurrencyKey task = Some key"
  shows
    "(\<exists>task' bm'. tryCompleteTask bm now notifyParentSession task = (True, task', bm')
        \<and> status task' = Completed \<and> concurrencyKey task' = None
        \<and> concurrencyGroup task' = concurrencyGroup task
        \<and> concurrencyManager bm' = fst (release (concurrencyManager bm) key)
        \<and> events bm' = events bm @ [Released key]
              @ resolvedEvents key (snd (release (concurrencyManager bm) key))
              @ [NotifyParentSession task'] @ deliveryLog (notifyParentSession task') task'
        \<and> (registered bm task \<longrightarrow>
              find (\<lambda>t. sessionID t = sessionID task) (map_values (bm_tasks bm')) = Some task'))
   \<and> (\<exists>task' bm'. cancelStaleTask bm now task = (bm', task')
        \<and> status task' = Cancelled \<and> concurrencyKey task' = None
        \<and> concurrencyGroup task' = concurrencyGroup task
        \<and> concurrencyManager bm' = fst (release (concurrencyManager bm) key)
        \<and> events bm' = events bm @ [Released key]
              @ resolvedEvents key (snd (release (concurrencyManager bm) key))
              @ [AbortSession task'])
   \<and> (registered bm task \<and> isStale bm now task \<longrightarrow>
        (\<exists>task'. find (\<lambda>t. sessionID t = sessionID task)
                    (map_values (bm_tasks (checkAndInterruptStaleTasks bm now))) = Some task'
           \<and> status task' = Cancelled \<and> concurrencyKey task' = None
           \<and> concurrencyGroup task' = concurrencyGroup task
           \<and> (\<exists>A R B. events (checkAndInterruptStaleTasks bm now) =
                  events bm @ A @ [Released key] @ R @ [AbortSession task'] @ B)))
   \<and> (\<forall>waiter rest.
        0 < getCount (concurrencyManager bm) key
        \<and> queues (concurrencyManager bm) key = waiter # rest \<longrightarrow>
        resolvedEvents key (snd (release (concurrencyManager bm) key)) = [Resolved key waiter]
        \<and> queues (fst (release (concurrencyManager bm) key)) key = rest)
   \<and> (\<forall>bmt (input::ResumeInput) caller later.
        registered bm task \<and> concurrencyGroup task = Some key \<and> sessionId input = sessionID task
        \<and> (bmt = snd (snd (tryCompleteTask bm now notifyParentSession task))
             \<or> isStale bm now task \<and> bmt = checkAndInterruptStaleTasks bm now) \<longrightarrow>
        (\<exists>t1 A B. find (\<lambda>t. sessionID t = sessionId input) (map_values (bm_tasks bmt)) = Some t1
           \<and> status t1 \<noteq> Running \<and> concurrencyKey t1 = None
           \<and> events bmt = events bm @ A @ [Released key] @ B)
        \<and> (getCount (concurrencyManager bmt) key < getConcurrencyLimit (concurrencyManager bmt) key \<longrightarrow>
             (\<exists>r bm2. bm_resume bmt later caller input = Inr (Returned r bm2)
                \<and> status r = Running \<and> concurrencyKey r = Some key
                \<and> getCount (concurrencyManager bm2) key = getCount (concurrencyManager bmt) key + 1
                \<and> events bm2 = events bmt @ [PromptSession r]
                \<and> find (\<lambda>t. sessionID t = sessionId input) (map_values (bm_tasks bm2)) = Some r))
        \<and> (getConcurrencyLimit (concurrencyManager bmt) key \<le> getCount (concurrencyManager bmt) key \<longrightarrow>
             (\<exists>bm2. bm_resume bmt later caller input = Inr (AwaitingSlot bm2)
                \<and> queues (concurrencyManager bm2) key = queues (concurrencyManager bmt) key @ [caller]
                \<and> getCount (concurrencyManager bm2) key = getCount (concurrencyManager bmt) key
                \<and> events bm2 = events bmt \<and> bm_tasks bm2 = bm_tasks bmt)))"
proof -
  let ?g = "concurrencyManager bm"
  let ?R = "resolvedEvents key (snd (release ?g key))"
  let ?c = "task\<lparr>status := Completed, completedAt := Some now, concurrencyKey := None\<rparr>"
  obtain bmc where
    tc: "tryCompleteTask bm now notifyParentSession task = (True, ?c, bmc)"
    and gc: "concurrencyManager bmc = fst (release ?g key)"
    and ec: "events bmc = events bm @ [Released key] @ ?R
               @ [NotifyParentSession ?c] @ deliveryLog (notifyParentSession ?c) ?c"
    using tryCompleteTask_running[OF run key, of bm now notifyParentSession] by simp
  have rc: "registered bm task \<Longrightarrow>
      find (\<lambda>t. sessionID t = sessionID task) (map_values (bm_tasks bmc)) = Some ?c"
    using tryCompleteTask_registry[OF run key, of bm now notifyParentSession] tc by simp
  have completion: "\<exists>task' bm'. tryCompleteTask bm now notifyParentSession task = (True, task', bm')
        \<and> status task' = Completed \<and> concurrencyKey task' = None
        \<and> concurrencyGroup task' = concurrencyGroup task
        \<and> concurrencyManager bm' = fst (release ?g key)
        \<and> events bm' = events bm @ [Released key] @ ?R
              @ [NotifyParentSession task'] @ deliveryLog (notifyParentSession task') task'
        \<and> (registered bm task \<longrightarrow>
              find (\<lambda>t. sessionID t = sessionID task) (map_values (bm_tasks bm')) = Some task')"
    using tc gc ec rc by simp
  have cancellation: "\<exists>task' bm'. cancelStaleTask bm now task = (bm', task')
        \<and> status task' = Cancelled \<and> concurrencyKey task' = None
        \<and> concurrencyGroup task' = concurrencyGroup task
        \<and> concurrencyManager bm' = fst (release ?g key)
        \<and> events bm' = events bm @ [Released key] @ ?R @ [AbortSession task']"
    unfolding cancelStaleTask_key[OF key] by simp
  have poll: "registered bm task \<and> isStale bm now task \<longrightarrow>
        (\<exists>task'. find (\<lambda>t. sessionID t = sessionID task)
                    (map_values (bm_tasks (checkAndInterruptStaleTasks bm now))) = Some task'
           \<and> status task' = Cancelled \<and> concurrencyKey task' = None
           \<and> concurrencyGroup task' = concurrencyGroup task
           \<and> (\<exists>A R B. events (checkAndInterruptStaleTasks bm now) =
                  events bm @ A @ [Released key] @ R @ [AbortSession task'] @ B))"
  proof
    assume a: "registered bm task \<and> isStale bm now task"
    then have r: "registered bm task" and st: "isStale bm now task" by simp_all
    show "\<exists>task'. find (\<lambda>t. sessionID t = sessionID task)
                    (map_values (bm_tasks (checkAndInterruptStaleTasks bm now))) = Some task'
           \<and> status task' = Cancelled \<and> concurrencyKey task' = None
           \<and> concurrencyGroup task' = concurrencyGroup task
           \<and> (\<exists>A R B. events (checkAndInterruptStaleTasks bm now) =
                  events bm @ A @ [Released key] @ R @ [AbortSession task'] @ B)"
      using poll_cancels_registered[OF key r st] watched_stale[OF st] by blast
  qed
  have waiter: "\<forall>waiter rest.
        0 < getCount ?g key \<and> queues ?g key = waiter # rest \<longrightarrow>
        ?R = [Resolved key waiter] \<and> queues (fst (release ?g key)) key = rest"
    by (simp add: release_queue resolvedEvents_def)
  have resumed: "\<forall>bmt (input::ResumeInput) caller later.
        registered bm task \<and> concurrencyGroup task = Some key \<and> sessionId input = sessionID task
        \<and> (bmt = snd (snd (tryCompleteTask bm now notifyParentSession task))
             \<or> isStale bm now task \<and> bmt = checkAndInterruptStaleTasks bm now) \<longrightarrow>
        (\<exists>t1 A B. find (\<lambda>t. sessionID t = sessionId input) (map_values (bm_tasks bmt)) = Some t1
           \<and> status t1 \<noteq> Running \<and> concurrencyKey t1 = None
           \<and> events bmt = events bm @ A @ [Released key] @ B)
        \<and> (getCount (concurrencyManager bmt) key < getConcurrencyLimit (concurrencyManager bmt) key \<longrightarrow>
             (\<exists>r bm2. bm_resume bmt later caller input = Inr (Returned r bm2)
                \<and> status r = Running \<and> concurrencyKey r = Some key
                \<and> getCount (concurrencyManager bm2) key = getCount (concurrencyManager bmt) key + 1
                \<and> events bm2 = events bmt @ [PromptSession r]
                \<and> find (\<lambda>t. sessionID t = sessionId input) (map_values (bm_tasks bm2)) = Some r))
        \<and> (getConcurrencyLimit (concurrencyManager bmt) key \<le> getCount (concurrencyManager bmt) key \<longrightarrow>
             (\<exists>bm2. bm_resume bmt later caller input = Inr (AwaitingSlot bm2)
                \<and> queues (concurrencyManager bm2) key = queues (concurrencyManager bmt) key @ [caller]
                \<and> getCount (concurrencyManager bm2) key = getCount (concurrencyManager bmt) key
                \<and> events bm2 = events bmt \<and> bm_tasks bm2 = bm_tasks bmt))"
  proof (intro allI impI)
    fix bmt :: BackgroundManager and input :: ResumeInput and caller :: nat and later :: int
    assume a: "registered bm task \<and> concurrencyGroup task = Some key \<and> sessionId input = sessionID task
        \<and> (bmt = snd (snd (tryCompleteTask bm now notifyParentSession task))
             \<or> isStale bm now task \<and> bmt = checkAndInterruptStaleTasks bm now)"
    then have r: "registered bm task" and grp: "concurrencyGroup task = Some key"
      and sid: "sessionId input = sessionID task" by simp_all
    have "\<exists>t1 A B. find (\<lambda>t. sessionID t = sessionId input) (map_values (bm_tasks bmt)) = Some t1
           \<and> status t1 \<noteq> Running \<and> concurrencyKey t1 = None \<and> concurrencyGroup t1 = Some key
           \<and> events bmt = events bm @ A @ [Released key] @ B"
    proof -
      from a consider
          (completed) "bmt = snd (snd (tryCompleteTask bm now notifyParentSession task))"
        | (cancelled) "isStale bm now task" "bmt = checkAndInterruptStaleTasks bm now"
        by blast
      then show ?thesis
      proof cases
        case completed
        then have b: "bmt = bmc" using tc by simp
        have "find (\<lambda>t. sessionID t = sessionId input) (map_values (bm_tasks bmt)) = Some ?c"
          unfolding b sid by (rule rc[OF r])
        moreover have "events bmt = events bm @ [] @ [Released key]
            @ (?R @ [NotifyParentSession ?c] @ deliveryLog (notifyParentSession ?c) ?c)"
          unfolding b ec by simp
        ultimately show ?thesis using grp by (intro exI[of _ ?c]) auto
      next
        case cancelled
        from poll_cancels_registered[OF key r cancelled(1)] obtain A R B where
          fw: "find (\<lambda>t. sessionID t = sessionID task)
                 (map_values (bm_tasks (checkAndInterruptStaleTasks bm now))) = Some (watched bm now task)"
          and ev: "events (checkAndInterruptStaleTasks bm now) =
                 events bm @ A @ [Released key] @ R @ [AbortSession (watched bm now task)] @ B"
          by blast
        have "events bmt = events bm @ A @ [Released key] @ (R @ [AbortSession (watched bm now task)] @ B)"
          unfolding cancelled(2) ev by simp
        moreover have "find (\<lambda>t. sessionID t = sessionId input) (map_values (bm_tasks bmt)) =
            Some (watched bm now task)"
          unfolding cancelled(2) sid by (rule fw)
        ultimately show ?thesis using watched_stale[OF cancelled(1)] grp
          by (intro exI[of _ "watched bm now task"]) auto
      qed
    qed
    then obtain t1 A B where
      f1: "find (\<lambda>t. sessionID t = sessionId input) (map_values (bm_tasks bmt)) = Some t1"
      and s1: "status t1 \<noteq> Running" and k1: "concurrencyKey t1 = None"
      and g1: "concurrencyGroup t1 = Some key"
      and e1: "events bmt = events bm @ A @ [Released key] @ B"
      by blast
    show "(\<exists>t1 A B. find (\<lambda>t. sessionID t = sessionId input) (map_values (bm_tasks bmt)) = Some t1
           \<and> status t1 \<noteq> Running \<and> concurrencyKey t1 = None
           \<and> events bmt = events bm @ A @ [Released key] @ B)
        \<and> (getCount (concurrencyManager bmt) key < getConcurrencyLimit (concurrencyManager bmt) key \<longrightarrow>
             (\<exists>r bm2. bm_resume bmt later caller input = Inr (Returned r bm2)
                \<and> status r = Running \<and> concurrencyKey r = Some key
                \<and> getCount (concurrencyManager bm2) key = getCount (concurrencyManager bmt) key + 1
                \<and> events bm2 = events bmt @ [PromptSession r]
                \<and> find (\<lambda>t. sessionID t = sessionId input) (map_values (bm_tasks bm2)) = Some r))
        \<and> (getConcurrencyLimit (concurrencyManager bmt) key \<le> getCount (concurrencyManager bmt) key \<longrightarrow>
             (\<exists>bm2. bm_resume bmt later caller input = Inr (AwaitingSlot bm2)
                \<and> queues (concurrencyManager bm2) key = queues (concurrencyManager bmt) key @ [caller]
                \<and> getCount (concurrencyManager bm2) key = getCount (concurrencyManager bmt) key
                \<and> events bm2 = events bmt \<and> bm_tasks bm2 = bm_tasks bmt))"
      using f1 s1 k1 e1 bm_resume_free[OF f1 s1 g1, of later caller]
        bm_resume_full[OF f1 s1 g1, of later caller] by blast
  qed
  from completion cancellation poll waiter resumed show ?thesis by blast
qed


lemma staleExplore_fields:
  "status staleExplore = Running" "concurrencyKey staleExplore = Some ''explore''"
  "sessionID staleExplore = ''session-1''"
  by (simp_all add: staleExplore_def runningExplore_def createMockTask_def)

lemma registered_managerWith: "registered (managerWith g task) task"
  by (simp add: registered_def managerWith_def map_values_def)

lemma staleExplore_isStale: "isStale (managerWith g staleExplore) 1000000 staleExplore"
  by (simp add: isStale_def staleExplore_def runningExplore_def createMockTask_def managerWith_def
      staleTimeout_def minRuntimeGuard_def DEFAULT_STALE_TIMEOUT_MS_def
      DEFAULT_MIN_RUNTIME_GUARD_MS_def Let_def)

lemma released_exploreGateWaiting:
  "getCount (fst (release exploreGateWaiting ''explore'')) ''explore'' = 1"
  "getConcurrencyLimit (fst (release exploreGateWaiting ''explore'')) ''explore'' = 1"
  "snd (release exploreGateWaiting ''explore'') = Some 2"
  "queues (fst (release exploreGateWaiting ''explore'')) ''explore'' = []"
  by (simp_all add: release_def exploreGateWaiting_state getCount_def getConcurrencyLimit_def)

lemma released_exploreGateHeld:
  "getCount (fst (release exploreGateHeld ''explore'')) ''explore'' = 0"
  "getConcurrencyLimit (fst (release exploreGateHeld ''explore'')) ''explore'' = 1"
  "snd (release exploreGateHeld ''explore'') = None"
  by (simp_all add: release_def exploreGateHeld_state getCount_def getConcurrencyLimit_def)

lemma exploreGate_limits:
  "getConcurrencyLimit exploreGateWaiting ''explore'' = 1"
  "getConcurrencyLimit exploreGateHeld ''explore'' = 1"
  by (simp_all add: exploreGateWaiting_state exploreGateHeld_state getConcurrencyLimit_def)

lemma runningExplore_session:
  "concurrencyGroup runningExplore = Some ''explore''"
  "sessionID runningExplore = ''session-1''" "sessionId resumeExplore = ''session-1''"
  by (simp_all add: runningExplore_def createMockTask_def resumeExplore_def)

text \<open>
  The tests. With capacity 1, the slot held and call 2 waiting, the completion of the
  task with a delivery that hangs returns true and resolves call 2 before the
  notification starts; the slot being held by call 2 now, a resume of the task queues
  its caller and starts nothing. With no waiter, the completion frees the slot (count
  0) and the resume takes it again (count 1), the task holding \<^verbatim>\<open>explore\<close> and the prompt
  coming last. The stale task is cancelled with the release and the resolution of call 2
  before the abort, alone and in a poll cycle.
\<close>

theorem release_before_blocking_call_witness:
  "status runningExplore = Running \<and> concurrencyKey runningExplore = Some ''explore''
   \<and> registered (managerWith exploreGateWaiting runningExplore) runningExplore
   \<and> 0 < getCount exploreGateWaiting ''explore'' \<and> queues exploreGateWaiting ''explore'' = [2]
   \<and> (\<exists>task' bm'.
         tryCompleteTask (managerWith exploreGateWaiting runningExplore) 5 (\<lambda>t. Hangs) runningExplore
           = (True, task', bm')
         \<and> status task' = Completed \<and> concurrencyKey task' = None
         \<and> events bm' = [Released ''explore'', Resolved ''explore'' 2,
                          NotifyParentSession task', DeliveryFailureLogged task']
         \<and> find (\<lambda>t. sessionID t = ''session-1'') (map_values (bm_tasks bm')) = Some task'
         \<and> (\<exists>bm2. bm_resume bm' 9 3 resumeExplore = Inr (AwaitingSlot bm2)
               \<and> queues (concurrencyManager bm2) ''explore'' = [3]
               \<and> events bm2 = events bm'))
   \<and> (\<exists>task' bm'.
         tryCompleteTask (managerWith exploreGateHeld runningExplore) 5 (\<lambda>t. Delivered) runningExplore
           = (True, task', bm')
         \<and> getCount (concurrencyManager bm') ''explore'' = 0
         \<and> events bm' = [Released ''explore'', NotifyParentSession task']
         \<and> (\<exists>r bm2. bm_resume bm' 9 3 resumeExplore = Inr (Returned r bm2)
               \<and> status r = Running \<and> concurrencyKey r = Some ''explore''
               \<and> getCount (concurrencyManager bm2) ''explore'' = 1
               \<and> events bm2 = [Released ''explore'', NotifyParentSession task', PromptSession r]))
   \<and> isStale (managerWith exploreGateWaiting staleExplore) 1000000 staleExplore
   \<and> (\<exists>task' bm'.
         cancelStaleTask (managerWith exploreGateWaiting staleExplore) 1000000 staleExplore = (bm', task')
         \<and> status task' = Cancelled \<and> concurrencyKey task' = None
         \<and> events bm' = [Released ''explore'', Resolved ''explore'' 2, AbortSession task'])
   \<and> (\<exists>task' A R B.
         find (\<lambda>t. sessionID t = ''session-1'')
           (map_values (bm_tasks (checkAndInterruptStaleTasks
              (managerWith exploreGateWaiting staleExplore) 1000000))) = Some task'
         \<and> status task' = Cancelled \<and> concurrencyKey task' = None
         \<and> events (checkAndInterruptStaleTasks (managerWith exploreGateWaiting staleExplore) 1000000)
             = A @ [Released ''explore''] @ R @ [AbortSession task'] @ B)"
proof -
  let ?W = "managerWith exploreGateWaiting runningExplore"
  let ?H = "managerWith exploreGateHeld runningExplore"
  let ?S = "managerWith exploreGateWaiting staleExplore"
  have gW: "concurrencyManager ?W = exploreGateWaiting" "events ?W = []"
    and gH: "concurrencyManager ?H = exploreGateHeld" "events ?H = []"
    and gS: "concurrencyManager ?S = exploreGateWaiting" "events ?S = []"
    by (simp_all add: managerWith_def)
  note W = release_before_blocking_call[OF runningExplore_fields, of ?W 5 "\<lambda>t. Hangs"]
  note H = release_before_blocking_call[OF runningExplore_fields, of ?H 5 "\<lambda>t. Delivered"]
  note S = release_before_blocking_call[OF staleExplore_fields(1,2), of ?S 1000000 "\<lambda>t. Delivered"]
  \<comment> \<open>completion with a waiter and a delivery that hangs, then a resume\<close>
  from W[THEN conjunct1] obtain t1 b1 where
    w1: "tryCompleteTask ?W 5 (\<lambda>t. Hangs) runningExplore = (True, t1, b1)"
    and w2: "status t1 = Completed" "concurrencyKey t1 = None"
    and w3: "concurrencyManager b1 = fst (release exploreGateWaiting ''explore'')"
    and w4: "events b1 = [Released ''explore'', Resolved ''explore'' 2,
                          NotifyParentSession t1, DeliveryFailureLogged t1]"
    and w5: "find (\<lambda>t. sessionID t = ''session-1'') (map_values (bm_tasks b1)) = Some t1"
    by (auto simp: gW released_exploreGateWaiting resolvedEvents_def deliveryLog_def
        registered_managerWith runningExplore_session)
  have "\<exists>bm2. bm_resume b1 9 3 resumeExplore = Inr (AwaitingSlot bm2)
          \<and> queues (concurrencyManager bm2) ''explore'' = [3] \<and> events bm2 = events b1"
    using W[THEN conjunct2, THEN conjunct2, THEN conjunct2, THEN conjunct2, rule_format,
            where bmt=b1 and input=resumeExplore and caller=3 and later=9] w1
    by (auto simp: registered_managerWith runningExplore_session w3 released_exploreGateWaiting
        exploreGate_limits)
  with w1 w2 w4 w5 have first: "\<exists>task' bm'.
         tryCompleteTask ?W 5 (\<lambda>t. Hangs) runningExplore = (True, task', bm')
         \<and> status task' = Completed \<and> concurrencyKey task' = None
         \<and> events bm' = [Released ''explore'', Resolved ''explore'' 2,
                          NotifyParentSession task', DeliveryFailureLogged task']
         \<and> find (\<lambda>t. sessionID t = ''session-1'') (map_values (bm_tasks bm')) = Some task'
         \<and> (\<exists>bm2. bm_resume bm' 9 3 resumeExplore = Inr (AwaitingSlot bm2)
               \<and> queues (concurrencyManager bm2) ''explore'' = [3]
               \<and> events bm2 = events bm')"
    by blast
  \<comment> \<open>completion without a waiter, then a resume\<close>
  from H[THEN conjunct1] obtain t2 b2 where
    h1: "tryCompleteTask ?H 5 (\<lambda>t. Delivered) runningExplore = (True, t2, b2)"
    and h3: "concurrencyManager b2 = fst (release exploreGateHeld ''explore'')"
    and h4: "events b2 = [Released ''explore'', NotifyParentSession t2]"
    by (auto simp: gH released_exploreGateHeld resolvedEvents_def deliveryLog_def)
  have "\<exists>r bm2. bm_resume b2 9 3 resumeExplore = Inr (Returned r bm2)
          \<and> status r = Running \<and> concurrencyKey r = Some ''explore''
          \<and> getCount (concurrencyManager bm2) ''explore'' = 1
          \<and> events bm2 = [Released ''explore'', NotifyParentSession t2, PromptSession r]"
    using H[THEN conjunct2, THEN conjunct2, THEN conjunct2, THEN conjunct2, rule_format,
            where bmt=b2 and input=resumeExplore and caller=3 and later=9] h1
    by (auto simp: registered_managerWith runningExplore_session h3 h4 released_exploreGateHeld
        exploreGate_limits)
  with h1 h3 h4 have second: "\<exists>task' bm'.
         tryCompleteTask ?H 5 (\<lambda>t. Delivered) runningExplore = (True, task', bm')
         \<and> getCount (concurrencyManager bm') ''explore'' = 0
         \<and> events bm' = [Released ''explore'', NotifyParentSession task']
         \<and> (\<exists>r bm2. bm_resume bm' 9 3 resumeExplore = Inr (Returned r bm2)
               \<and> status r = Running \<and> concurrencyKey r = Some ''explore''
               \<and> getCount (concurrencyManager bm2) ''explore'' = 1
               \<and> events bm2 = [Released ''explore'', NotifyParentSession task', PromptSession r])"
    by (simp add: released_exploreGateHeld)
  \<comment> \<open>cancellation by the watchdog\<close>
  have third: "\<exists>task' bm'. cancelStaleTask ?S 1000000 staleExplore = (bm', task')
         \<and> status task' = Cancelled \<and> concurrencyKey task' = None
         \<and> events bm' = [Released ''explore'', Resolved ''explore'' 2, AbortSession task']"
    using S[THEN conjunct2, THEN conjunct1]
    by (auto simp: gS released_exploreGateWaiting resolvedEvents_def)
  have fourth: "\<exists>task' A R B.
         find (\<lambda>t. sessionID t = ''session-1'')
           (map_values (bm_tasks (checkAndInterruptStaleTasks ?S 1000000))) = Some task'
         \<and> status task' = Cancelled \<and> concurrencyKey task' = None
         \<and> events (checkAndInterruptStaleTasks ?S 1000000)
             = A @ [Released ''explore''] @ R @ [AbortSession task'] @ B"
    using S[THEN conjunct2, THEN conjunct2, THEN conjunct1]
    by (auto simp: gS registered_managerWith staleExplore_isStale staleExplore_fields)
  from first second third fourth show ?thesis
    by (simp add: runningExplore_fields registered_managerWith exploreGateWaiting_count
        exploreGateWaiting_queue staleExplore_isStale)
qed

end
